theory Spec2Isabelle
  imports Complex_Main "HOL-Library.AList" "HOL-Library.Log_Nat"
begin

section \<open>Numbers\<close>

text \<open>
  A JavaScript number is an IEEE 754 double. A finite one is modelled by its exact
  rational value, next to the two infinities and \<^verbatim>\<open>NaN\<close>; the two zeros are identified.
  Every arithmetic operation of the source yields the exact result rounded to the nearest
  double, ties to the even mantissa, and an infinity beyond the range.

  The arithmetic is a parameter of the model. \<open>Binary64\<close> is the arithmetic of the
  program. \<open>Exact\<close> does not round: it is the arithmetic of the rationals, in which the
  algebraic statements about the calculation are made.
\<close>

datatype number = Fin rat | PosInf | NegInf | NaN

fun isNaN :: "number \<Rightarrow> bool" where
  "isNaN NaN = True"
| "isNaN _ = False"

fun isFinite :: "number \<Rightarrow> bool" where
  "isFinite (Fin _) = True"
| "isFinite _ = False"

fun is_neg :: "number \<Rightarrow> bool" where
  "is_neg (Fin a) = (a < 0)"
| "is_neg NegInf = True"
| "is_neg _ = False"

fun is_zero :: "number \<Rightarrow> bool" where
  "is_zero (Fin a) = (a = 0)"
| "is_zero _ = False"

definition inf_of_sign :: "bool \<Rightarrow> number" where
  "inf_of_sign neg = (if neg then NegInf else PosInf)"

fun num_neg :: "number \<Rightarrow> number" where
  "num_neg (Fin a) = Fin (- a)"
| "num_neg PosInf = NegInf"
| "num_neg NegInf = PosInf"
| "num_neg NaN = NaN"

text \<open>The rational behind a finite number.\<close>

fun the_Fin :: "number \<Rightarrow> rat" where
  "the_Fin (Fin x) = x"
| "the_Fin _ = 0"

text \<open>
  The exponent of a positive rational \<open>a\<close>: the integer \<open>e\<close> with \<open>2\<^sup>e \<le> a < 2\<^sup>e\<^sup>+\<^sup>1\<close>.
\<close>

definition floor_log2 :: "rat \<Rightarrow> int" where
  "floor_log2 a = (if 1 \<le> a then bitlen \<lfloor>a\<rfloor> - 1 else - bitlen (\<lceil>1 / a\<rceil> - 1))"

text \<open>The nearest integer, a tie going to the even one.\<close>

definition round_half_even :: "rat \<Rightarrow> int" where
  "round_half_even q =
     (let n = \<lfloor>q\<rfloor>; r = q - of_int n
      in if r < 1 / 2 then n else if 1 / 2 < r then n + 1 else if even n then n else n + 1)"

text \<open>
  The double nearest to a rational. The mantissa has 53 bits, so the doubles with exponent
  \<open>e\<close> are the multiples of \<open>2\<^sup>e\<^sup>-\<^sup>5\<^sup>2\<close>; below the exponent \<open>-1022\<close> the spacing stays
  \<open>2\<^sup>-\<^sup>1\<^sup>0\<^sup>7\<^sup>4\<close>. A result of \<open>2\<^sup>1\<^sup>0\<^sup>2\<^sup>4\<close> or more is an infinity.
\<close>

definition binary64 :: "rat \<Rightarrow> number" where
  "binary64 x =
     (if x = 0 then Fin 0
      else
        let a = \<bar>x\<bar>;
            e = max (floor_log2 a) (- 1022)
        in if 1024 \<le> e then inf_of_sign (x < 0)
           else
             let u = 2 powi (e - 52);
                 n = round_half_even (a / u)
             in if e = 1023 \<and> n = 2 ^ 53 then inf_of_sign (x < 0)
                else Fin (if x < 0 then - (of_int n * u) else of_int n * u))"

text \<open>
  The exponent and the mantissa that \<open>binary64\<close> works with, named for the proofs about it.
\<close>

definition exponent_of :: "rat \<Rightarrow> int" where
  "exponent_of x = max (floor_log2 \<bar>x\<bar>) (- 1022)"

definition mantissa_of :: "rat \<Rightarrow> int" where
  "mantissa_of x = round_half_even (\<bar>x\<bar> / 2 powi (exponent_of x - 52))"

datatype arithmetic = Exact | Binary64

fun rnd :: "arithmetic \<Rightarrow> rat \<Rightarrow> number" where
  "rnd Exact x = Fin x"
| "rnd Binary64 x = binary64 x"

text \<open>The operator \<^verbatim>\<open>*\<close>: a zero times an infinity is \<^verbatim>\<open>NaN\<close>.\<close>

fun num_mul :: "arithmetic \<Rightarrow> number \<Rightarrow> number \<Rightarrow> number" where
  "num_mul ar (Fin a) (Fin b) = rnd ar (a * b)"
| "num_mul ar x y =
     (if isNaN x \<or> isNaN y \<or> is_zero x \<or> is_zero y then NaN
      else inf_of_sign (is_neg x \<noteq> is_neg y))"

text \<open>The operator \<^verbatim>\<open>+\<close> on numbers: opposite infinities give \<^verbatim>\<open>NaN\<close>.\<close>

fun num_add :: "arithmetic \<Rightarrow> number \<Rightarrow> number \<Rightarrow> number" where
  "num_add ar (Fin a) (Fin b) = rnd ar (a + b)"
| "num_add ar x y =
     (if isNaN x \<or> isNaN y then NaN
      else if (x = PosInf \<and> y = NegInf) \<or> (x = NegInf \<and> y = PosInf) then NaN
      else if x = PosInf \<or> y = PosInf then PosInf
      else NegInf)"

text \<open>
  The operator \<^verbatim>\<open>/\<close>. A finite non-zero value divided by zero is an infinity whose
  sign is that of the dividend (the divisor is read as the positive zero); every division
  in the modelled code is by the literal 100.
\<close>

fun num_div :: "arithmetic \<Rightarrow> number \<Rightarrow> number \<Rightarrow> number" where
  "num_div ar (Fin a) (Fin b) =
     (if b = 0 then (if a = 0 then NaN else inf_of_sign (a < 0)) else rnd ar (a / b))"
| "num_div ar x y =
     (if isNaN x \<or> isNaN y then NaN
      else if isFinite x then Fin 0
      else if isFinite y then inf_of_sign (is_neg x \<noteq> is_neg y)
      else NaN)"

text \<open>
  \<^verbatim>\<open>Math.round(x)\<close> is the integer nearest to \<open>x\<close>, a tie going to the larger one. It is
  computed on the value of \<open>x\<close> without rounding error, and leaves the values that are not
  finite as they are.
\<close>

fun Math_round :: "number \<Rightarrow> number" where
  "Math_round (Fin x) = Fin (of_int \<lfloor>x + 1 / 2\<rfloor>)"
| "Math_round x = x"

text \<open>
  \<^verbatim>\<open>parseFloat(x.toFixed(2))\<close>. On a magnitude below \<open>10\<^sup>2\<^sup>1\<close>, \<^verbatim>\<open>toFixed\<close> prints the
  integer \<open>n\<close> for which \<open>n / 100\<close> is nearest to the magnitude of \<open>x\<close>, the larger \<open>n\<close> on
  a tie, and puts the sign back; from \<open>10\<^sup>2\<^sup>1\<close> on it prints the number itself. It works on
  the value that \<open>x\<close> holds, without rounding error. \<^verbatim>\<open>parseFloat\<close> reads the decimal
  text as a number of the arithmetic. The values that are not finite print as their names
  and are read back unchanged.
\<close>

definition toFixed2 :: "rat \<Rightarrow> rat" where
  "toFixed2 x =
     (if 10 ^ 21 \<le> \<bar>x\<bar> then x
      else if x < 0 then - (of_int \<lfloor>(- x) * 100 + 1 / 2\<rfloor> / 100)
      else of_int \<lfloor>x * 100 + 1 / 2\<rfloor> / 100)"

fun num_toFixed2 :: "arithmetic \<Rightarrow> number \<Rightarrow> number" where
  "num_toFixed2 ar (Fin x) = rnd ar (toFixed2 x)"
| "num_toFixed2 ar x = x"

text \<open>
  The remainder operator \<^verbatim>\<open>%\<close> on integers truncates: the result has the sign of the
  dividend.
\<close>

definition js_rem :: "int \<Rightarrow> int \<Rightarrow> int" where
  "js_rem a b = (if a < 0 then - ((- a) mod \<bar>b\<bar>) else a mod \<bar>b\<bar>)"

section \<open>Tariff bands\<close>

text \<open>
  The three rates of a tariff, in pence; a band of the quarterly schedule is a tariff
  with a label.
\<close>

record rates =
  peakUnitRate :: number
  standingCharge :: number
  offPeakUnitRate :: number

record band = rates +
  name :: string

definition isWinterMonth :: "int \<Rightarrow> bool" where
  "isWinterMonth month = (month \<ge> 10 \<or> month \<le> 3)"

definition baseIncrease :: rates where
  "baseIncrease =
     \<lparr>peakUnitRate = Fin (1 / 2), standingCharge = Fin (1 / 2), offPeakUnitRate = Fin (1 / 2)\<rparr>"

text \<open>The literals \<^verbatim>\<open>1.1\<close> and \<^verbatim>\<open>0.95\<close>, as numbers of the arithmetic.\<close>

definition seasonalMultiplier_winter :: "arithmetic \<Rightarrow> number" where
  "seasonalMultiplier_winter ar = rnd ar (11 / 10)"

definition seasonalMultiplier_summer :: "arithmetic \<Rightarrow> number" where
  "seasonalMultiplier_summer ar = rnd ar (95 / 100)"

definition futureMonth :: "int \<Rightarrow> int \<Rightarrow> int" where
  "futureMonth currentMonth i = js_rem (currentMonth - 1 + i * 3) 12 + 1"

definition multiplier :: "arithmetic \<Rightarrow> int \<Rightarrow> int \<Rightarrow> number" where
  "multiplier ar currentMonth i =
     (if isWinterMonth (futureMonth currentMonth i) then seasonalMultiplier_winter ar
      else seasonalMultiplier_summer ar)"

text \<open>
  One rate of a future band:
  \<^verbatim>\<open>Math.round((rate + (increase * i)) * multiplier * 100) / 100\<close>.
\<close>

definition future_rate :: "arithmetic \<Rightarrow> number \<Rightarrow> number \<Rightarrow> int \<Rightarrow> number \<Rightarrow> number" where
  "future_rate ar rate increase i m =
     num_div ar
       (Math_round
          (num_mul ar
             (num_mul ar (num_add ar rate (num_mul ar increase (Fin (of_int i)))) m)
             (Fin 100)))
       (Fin 100)"

text \<open>The band pushed by iteration \<open>i\<close> of the loop over the two future quarters.\<close>

definition future_band :: "arithmetic \<Rightarrow> rates \<Rightarrow> int \<Rightarrow> int \<Rightarrow> band" where
  "future_band ar currentTariffBand currentMonth i =
     \<lparr>peakUnitRate =
        future_rate ar (peakUnitRate currentTariffBand) (peakUnitRate baseIncrease) i
          (multiplier ar currentMonth i),
      standingCharge =
        future_rate ar (standingCharge currentTariffBand) (standingCharge baseIncrease) i
          (multiplier ar currentMonth i),
      offPeakUnitRate =
        future_rate ar (offPeakUnitRate currentTariffBand) (offPeakUnitRate baseIncrease) i
          (multiplier ar currentMonth i),
      name = (if i = 1 then ''Next Quarter'' else ''Following Quarter'')\<rparr>"

text \<open>
  The list \<^verbatim>\<open>bands\<close> that \<^verbatim>\<open>calculateTariffBands\<close> builds and stores as the quarterly
  schedule: the current tariff under the label of the current month, then the bands of
  the loop \<^verbatim>\<open>for (let i = 1; i <= 2; i++)\<close>.
\<close>

definition tariffBands :: "arithmetic \<Rightarrow> rates \<Rightarrow> int \<Rightarrow> band list" where
  "tariffBands ar currentTariffBand currentMonth =
     \<lparr>peakUnitRate = peakUnitRate currentTariffBand,
      standingCharge = standingCharge currentTariffBand,
      offPeakUnitRate = offPeakUnitRate currentTariffBand,
      name = ''Current Month''\<rparr>
     # map (future_band ar currentTariffBand currentMonth) [1, 2]"

section \<open>Reading the usage text\<close>

text \<open>
  \<^verbatim>\<open>str.split(",")\<close>: the pieces between the commas, in order. The empty text has one
  piece, the empty one, and a trailing comma is followed by an empty piece.
\<close>

fun split_comma :: "string \<Rightarrow> string list" where
  "split_comma [] = [[]]"
| "split_comma (c # cs) =
     (if c = CHR '','' then [] # split_comma cs
      else (case split_comma cs of
              [] \<Rightarrow> [[c]]
            | w # ws \<Rightarrow> (c # w) # ws))"

text \<open>
  \<^verbatim>\<open>Number(text)\<close> follows the grammar of numeric string literals. A \<open>char\<close> stands for
  a code unit below 256; the white space there is tab, line feed, vertical tab, form
  feed, carriage return, space and the no-break space.
\<close>

definition isStrWhiteSpaceChar :: "char \<Rightarrow> bool" where
  "isStrWhiteSpaceChar c =
     (c \<in> set [CHR 0x09, CHR 0x0A, CHR 0x0B, CHR 0x0C, CHR 0x0D, CHR 0x20, CHR 0xA0])"

definition trim :: "string \<Rightarrow> string" where
  "trim s = rev (dropWhile isStrWhiteSpaceChar (rev (dropWhile isStrWhiteSpaceChar s)))"

text \<open>The value of a digit in a radix up to 16, if it is one.\<close>

definition digit_value :: "nat \<Rightarrow> char \<Rightarrow> nat option" where
  "digit_value radix c =
     (let k = (of_char c :: nat);
          v = (if 48 \<le> k \<and> k \<le> 57 then Some (k - 48)
               else if 97 \<le> k \<and> k \<le> 102 then Some (k - 87)
               else if 65 \<le> k \<and> k \<le> 70 then Some (k - 55)
               else None)
      in case v of
           None \<Rightarrow> None
         | Some d \<Rightarrow> if d < radix then Some d else None)"

definition isDecimalDigit :: "char \<Rightarrow> bool" where
  "isDecimalDigit c = (digit_value 10 c \<noteq> None)"

fun digits_value :: "nat \<Rightarrow> nat \<Rightarrow> string \<Rightarrow> nat option" where
  "digits_value radix acc [] = Some acc"
| "digits_value radix acc (c # cs) =
     (case digit_value radix c of
        None \<Rightarrow> None
      | Some d \<Rightarrow> digits_value radix (acc * radix + d) cs)"

text \<open>A non-empty run of digits of the radix, and nothing else.\<close>

definition all_digits :: "nat \<Rightarrow> string \<Rightarrow> nat option" where
  "all_digits radix s = (if s = [] then None else digits_value radix 0 s)"

text \<open>\<^verbatim>\<open>0x\<close>, \<^verbatim>\<open>0o\<close> and \<^verbatim>\<open>0b\<close> integers (either case of the letter), unsigned.\<close>

definition NonDecimalIntegerLiteral :: "arithmetic \<Rightarrow> string \<Rightarrow> number option" where
  "NonDecimalIntegerLiteral ar s =
     (case s of
        z # p # ds \<Rightarrow>
          (if z \<noteq> CHR ''0'' then None
           else let radix = (if p = CHR ''x'' \<or> p = CHR ''X'' then 16
                             else if p = CHR ''o'' \<or> p = CHR ''O'' then 8
                             else if p = CHR ''b'' \<or> p = CHR ''B'' then 2
                             else (0::nat))
                in if radix = 0 then None
                   else (case all_digits radix ds of
                           None \<Rightarrow> Some NaN
                         | Some n \<Rightarrow> Some (rnd ar (of_nat n))))
      | _ \<Rightarrow> None)"

definition pow10 :: "int \<Rightarrow> rat" where
  "pow10 k = (if 0 \<le> k then 10 ^ nat k else 1 / 10 ^ nat (- k))"

text \<open>The exponent part after the letter: an optional sign and a non-empty run of digits.\<close>

definition SignedInteger :: "string \<Rightarrow> int option" where
  "SignedInteger s =
     (case s of
        [] \<Rightarrow> None
      | c # cs \<Rightarrow>
          if c = CHR ''+'' then map_option int (all_digits 10 cs)
          else if c = CHR ''-'' then map_option (\<lambda>n. - int n) (all_digits 10 cs)
          else map_option int (all_digits 10 s))"

text \<open>
  An unsigned decimal literal: \<^verbatim>\<open>Infinity\<close>, or digits with an optional fraction and an
  optional exponent, at least one digit before or after the point.
\<close>

definition StrUnsignedDecimalLiteral :: "arithmetic \<Rightarrow> string \<Rightarrow> number" where
  "StrUnsignedDecimalLiteral ar s =
     (if s = ''Infinity'' then PosInf
      else
        let ip = takeWhile isDecimalDigit s;
            r1 = dropWhile isDecimalDigit s;
            has_point = (r1 \<noteq> [] \<and> hd r1 = CHR ''.'');
            fp = (if has_point then takeWhile isDecimalDigit (tl r1) else []);
            r2 = (if has_point then dropWhile isDecimalDigit (tl r1) else r1);
            ex = (if r2 = [] then Some 0
                  else if hd r2 = CHR ''e'' \<or> hd r2 = CHR ''E'' then SignedInteger (tl r2)
                  else None)
        in if ip = [] \<and> fp = [] then NaN
           else (case (digits_value 10 0 (ip @ fp), ex) of
                   (Some m, Some e) \<Rightarrow> rnd ar (of_nat m * pow10 (e - int (length fp)))
                 | _ \<Rightarrow> NaN))"

definition StrDecimalLiteral :: "arithmetic \<Rightarrow> string \<Rightarrow> number" where
  "StrDecimalLiteral ar s =
     (case s of
        [] \<Rightarrow> NaN
      | c # cs \<Rightarrow>
          if c = CHR ''+'' then StrUnsignedDecimalLiteral ar cs
          else if c = CHR ''-'' then num_neg (StrUnsignedDecimalLiteral ar cs)
          else StrUnsignedDecimalLiteral ar s)"

text \<open>
  \<^verbatim>\<open>Number\<close> applied to a string: white space around the literal is dropped, nothing
  at all is zero, and text that is not a literal is \<^verbatim>\<open>NaN\<close>. The value of a literal is
  its mathematical value rounded by the arithmetic, so in doubles a literal beyond the
  range is an infinity.
\<close>

definition Number :: "arithmetic \<Rightarrow> string \<Rightarrow> number" where
  "Number ar s =
     (let t = trim s
      in if t = [] then Fin 0
         else (case NonDecimalIntegerLiteral ar t of
                 Some n \<Rightarrow> n
               | None \<Rightarrow> StrDecimalLiteral ar t))"

text \<open>
  The first statement of \<^verbatim>\<open>calculateProjection\<close>:
  \<^verbatim>\<open>text.split(",").map(Number).filter((n) => !isNaN(n))\<close>.
\<close>

definition usageBasis_of :: "arithmetic \<Rightarrow> string \<Rightarrow> number list" where
  "usageBasis_of ar text = filter (\<lambda>n. \<not> isNaN n) (map (Number ar) (split_comma text))"

section \<open>Days in a month\<close>

text \<open>
  \<^verbatim>\<open>new Date(year, month, 0).getDate()\<close>. The constructor takes a month index that may
  exceed 11: whole dozens are carried into the year and the rest is the month (January is
  0). Day 0 is the day before the first of that month, and \<^verbatim>\<open>getDate\<close> is its day of
  the month.

  A date holds a time value of at most \<open>8.64 * 10\<^sup>1\<^sup>5\<close> milliseconds from the epoch in either
  direction, which is \<open>10\<^sup>8\<close> days; a date built beyond that is invalid, and \<^verbatim>\<open>getDate\<close> of
  an invalid date is \<^verbatim>\<open>NaN\<close>. The date is built at local midnight, and the offset of local
  time is less than a day: a day whose number is below \<open>10\<^sup>8\<close> in magnitude is in range, a
  day whose number is above is not, and only on the day \<open>10\<^sup>8\<close> itself would the time zone
  decide. The model takes that day as out of range.
\<close>

definition isLeapYear :: "int \<Rightarrow> bool" where
  "isLeapYear y = (y mod 4 = 0 \<and> (y mod 100 \<noteq> 0 \<or> y mod 400 = 0))"

text \<open>The length of the month with index \<open>m\<close> (0 to 11) in year \<open>y\<close>.\<close>

definition DaysInMonth :: "int \<Rightarrow> int \<Rightarrow> int" where
  "DaysInMonth y m =
     (if m = 1 then (if isLeapYear y then 29 else 28)
      else if m = 3 \<or> m = 5 \<or> m = 8 \<or> m = 10 then 30
      else 31)"

text \<open>The day number, counted from 1 January 1970, of the first day of year \<open>y\<close>.\<close>

definition DayFromYear :: "int \<Rightarrow> int" where
  "DayFromYear y =
     365 * (y - 1970) + (y - 1969) div 4 - (y - 1901) div 100 + (y - 1601) div 400"

text \<open>The days of year \<open>y\<close> before its month with index \<open>m\<close>.\<close>

definition days_before_month :: "int \<Rightarrow> nat \<Rightarrow> int" where
  "days_before_month y m = sum_list (map (\<lambda>k. DaysInMonth y (int k)) [0..<m])"

text \<open>The day number of the date with the given year, month index and day of the month.\<close>

definition MakeDay :: "int \<Rightarrow> int \<Rightarrow> int \<Rightarrow> int" where
  "MakeDay year month date =
     (let ym = year + month div 12; mn = month mod 12
      in DayFromYear ym + days_before_month ym (nat mn) + date - 1)"

type_synonym civil_date = "int \<times> int \<times> int"

definition first_of_month :: "int \<Rightarrow> int \<Rightarrow> civil_date" where
  "first_of_month year month = (year + month div 12, month mod 12, 1)"

fun day_before :: "civil_date \<Rightarrow> civil_date" where
  "day_before (y, m, d) =
     (if 1 < d then (y, m, d - 1)
      else if 0 < m then (y, m - 1, DaysInMonth y (m - 1))
      else (y - 1, 11, 31))"

text \<open>\<^verbatim>\<open>new Date(year, month, 0)\<close>: the date, or \<open>None\<close> for an invalid date.\<close>

definition Date_day_zero :: "int \<Rightarrow> int \<Rightarrow> civil_date option" where
  "Date_day_zero year month =
     (if \<bar>MakeDay year month 0\<bar> < 100000000 then Some (day_before (first_of_month year month))
      else None)"

fun getDate :: "civil_date option \<Rightarrow> number" where
  "getDate None = NaN"
| "getDate (Some (y, m, d)) = Fin (of_int d)"

text \<open>The loop's \<^verbatim>\<open>daysInMonth = new Date(2025, i + 1, 0).getDate()\<close>.\<close>

definition daysInMonth :: "nat \<Rightarrow> number" where
  "daysInMonth i = getDate (Date_day_zero 2025 (int i + 1))"

section \<open>The projection\<close>

text \<open>
  The state of the component that the two calculations read and write. The percentage is
  a finite number (the form stores a clamped \<^verbatim>\<open>parseInt\<close>) and the number of months is a
  count. Arrays are lists without a bound on their length.
\<close>

record app_state =
  monthlyUsageProjectionBasis :: string
  peakPercentage :: rat
  nMonths :: nat
  currentMonth :: int
  isFixedCharge :: bool
  fixedRates :: rates
  currentTariffBand :: rates
  tariffQuarters :: "band list"
  projectedUsage :: "number list"
  projectedCosts :: "number list"
  totalProjectedCost :: number
  error :: "string option"

definition calculateTariffBands :: "arithmetic \<Rightarrow> app_state \<Rightarrow> app_state" where
  "calculateTariffBands ar s =
     s\<lparr>tariffQuarters := tariffBands ar (currentTariffBand s) (currentMonth s)\<rparr>"

datatype js_error = TypeError

text \<open>Reading an array at an index: \<^verbatim>\<open>undefined\<close> (here \<open>None\<close>) out of range.\<close>

definition array_get :: "'a list \<Rightarrow> nat \<Rightarrow> 'a option" where
  "array_get xs k = (if k < length xs then Some (xs ! k) else None)"

text \<open>
  The band for month \<open>i\<close>: the third one unless one of the three tests replaces it.
\<close>

definition applicableTariff :: "band list \<Rightarrow> nat \<Rightarrow> band option" where
  "applicableTariff tq i =
     (if i < 3 then array_get tq 0
      else if i < 6 then array_get tq 1
      else if i < 9 then array_get tq 2
      else array_get tq 2)"

text \<open>
  \<^verbatim>\<open>100 - peakPercentage\<close>, as a rational. For the percentages the form stores, whole
  numbers from 0 to 100, the subtraction is exact in doubles too; the loop uses the value
  as a number of the arithmetic.
\<close>

definition offPeakPercentage :: "app_state \<Rightarrow> rat" where
  "offPeakPercentage s = 100 - peakPercentage s"

definition peakUsage :: "arithmetic \<Rightarrow> app_state \<Rightarrow> number \<Rightarrow> number" where
  "peakUsage ar s totalUsage =
     num_mul ar totalUsage (num_div ar (Fin (peakPercentage s)) (Fin 100))"

definition offPeakUsage :: "arithmetic \<Rightarrow> app_state \<Rightarrow> number \<Rightarrow> number" where
  "offPeakUsage ar s totalUsage =
     num_mul ar totalUsage (num_div ar (rnd ar (offPeakPercentage s)) (Fin 100))"

text \<open>
  The cost of a month under a tariff; the two branches of the loop body compute it the
  same way, from the fixed rates or from the applicable band.
\<close>

definition totalUnitCost ::
  "arithmetic \<Rightarrow> 'a rates_scheme \<Rightarrow> number \<Rightarrow> number \<Rightarrow> number" where
  "totalUnitCost ar r pk offpk =
     num_add ar (num_div ar (num_mul ar pk (peakUnitRate r)) (Fin 100))
                (num_div ar (num_mul ar offpk (offPeakUnitRate r)) (Fin 100))"

definition totalStandingChargeCost :: "arithmetic \<Rightarrow> 'a rates_scheme \<Rightarrow> number \<Rightarrow> number" where
  "totalStandingChargeCost ar r days =
     num_div ar (num_mul ar days (standingCharge r)) (Fin 100)"

text \<open>
  The body of the loop for month \<open>i\<close>, up to the cost of the month. In band mode a missing
  band is \<^verbatim>\<open>undefined\<close>, and reading its rate throws. The basis is not empty when the
  loop runs, so the index into it is in range.
\<close>

definition monthCost ::
  "arithmetic \<Rightarrow> app_state \<Rightarrow> number list \<Rightarrow> nat \<Rightarrow> js_error + number" where
  "monthCost ar s usageBasis i =
     (let monthIndex = i mod length usageBasis;
          totalUsage = usageBasis ! monthIndex;
          pk = peakUsage ar s totalUsage;
          offpk = offPeakUsage ar s totalUsage
      in if isFixedCharge s then
           Inr (num_add ar (totalUnitCost ar (fixedRates s) pk offpk)
                           (totalStandingChargeCost ar (fixedRates s) (daysInMonth i)))
         else
           (case applicableTariff (tariffQuarters s) i of
              None \<Rightarrow> Inl TypeError
            | Some t \<Rightarrow>
                Inr (num_add ar (totalUnitCost ar t pk offpk)
                                (totalStandingChargeCost ar t (daysInMonth i)))))"

text \<open>
  The loop \<^verbatim>\<open>for (let i = 0; i < nMonths; i++)\<close> with its three accumulators: the usage
  values, the rounded costs and the running total of the costs before rounding.
\<close>

type_synonym projection = "number list \<times> number list \<times> number"

function projection_loop ::
  "arithmetic \<Rightarrow> app_state \<Rightarrow> number list \<Rightarrow> nat \<Rightarrow> projection \<Rightarrow> js_error + projection"
  where
  "projection_loop ar s usageBasis i (projectedMonths, projectedCostsCalc, currentTotalCost) =
     (if i < nMonths s then
        (case monthCost ar s usageBasis i of
           Inl e \<Rightarrow> Inl e
         | Inr c \<Rightarrow>
             projection_loop ar s usageBasis (Suc i)
               (projectedMonths @ [usageBasis ! (i mod length usageBasis)],
                projectedCostsCalc @ [num_toFixed2 ar c],
                num_add ar currentTotalCost c))
      else Inr (projectedMonths, projectedCostsCalc, currentTotalCost))"
  by pat_completeness auto
termination
  by (relation "measure (\<lambda>(ar, s, usageBasis, i, acc). nMonths s - i)") auto

declare projection_loop.simps [simp del]

text \<open>
  \<^verbatim>\<open>calculateProjection\<close>: an empty basis is reported and clears the results; an
  exception in the loop is caught, reported, and leaves the results as they were.
\<close>

definition calculateProjection :: "arithmetic \<Rightarrow> app_state \<Rightarrow> app_state" where
  "calculateProjection ar s =
     (let usageBasis = usageBasis_of ar (monthlyUsageProjectionBasis s)
      in if length usageBasis = 0 then
           s\<lparr>error := Some ''Monthly Usage Projection Basis cannot be empty.'',
             projectedUsage := [],
             projectedCosts := [],
             totalProjectedCost := Fin 0\<rparr>
         else
           (case projection_loop ar s usageBasis 0 ([], [], Fin 0) of
              Inl e \<Rightarrow> s\<lparr>error := Some ''Error during calculation. Please check your inputs.''\<rparr>
            | Inr (projectedMonths, projectedCostsCalc, currentTotalCost) \<Rightarrow>
                s\<lparr>projectedUsage := projectedMonths,
                  projectedCosts := projectedCostsCalc,
                  totalProjectedCost := currentTotalCost,
                  error := None\<rparr>))"

section \<open>Loading a stored session\<close>

text \<open>
  A stored session is what \<^verbatim>\<open>JSON.parse\<close> returns for an entry of the saved list. A
  field that is absent reads as \<^verbatim>\<open>undefined\<close>. The fields that hold plain values are
  modelled by \<open>jsval\<close>; a band is an object, a list of fields with their values.
\<close>

datatype jsval = JUndefined | JNull | JBool bool | JNum number | JStr string

type_synonym obj = "(string \<times> jsval) list"

definition get_prop :: "obj \<Rightarrow> string \<Rightarrow> jsval" where
  "get_prop q k = (case map_of q k of None \<Rightarrow> JUndefined | Some v \<Rightarrow> v)"

fun truthy :: "jsval \<Rightarrow> bool" where
  "truthy JUndefined = False"
| "truthy JNull = False"
| "truthy (JBool b) = b"
| "truthy (JNum n) = (\<not> isNaN n \<and> \<not> is_zero n)"
| "truthy (JStr s) = (s \<noteq> [])"

text \<open>The operator \<^verbatim>\<open>||\<close>: the left operand if it is truthy, else the right one.\<close>

definition js_or :: "jsval \<Rightarrow> jsval \<Rightarrow> jsval" where
  "js_or a b = (if truthy a then a else b)"

text \<open>
  The fields of a session that \<^verbatim>\<open>handleLoadSession\<close> reads. An object or array field
  that is absent (or \<^verbatim>\<open>null\<close>) is \<open>None\<close>.
\<close>

record session =
  stored_name :: jsval
  stored_monthlyUsageProjectionBasis :: jsval
  stored_peakPercentage :: jsval
  stored_currentMonth :: jsval
  stored_isFixedCharge :: jsval
  stored_fixedRates :: "obj option"
  stored_currentTariffBand :: "obj option"
  stored_tariffQuarters :: "obj list option"
  stored_nMonths :: jsval
  stored_projectedUsage :: "jsval list option"
  stored_projectedCosts :: "jsval list option"
  stored_totalProjectedCost :: jsval

text \<open>
  What the function passes to each state setter. The setters up to the one for the
  current tariff are called before the band list is read, the others after it.
\<close>

record setters_before =
  setSessionName :: jsval
  setMonthlyUsageProjectionBasis :: jsval
  setPeakPercentage :: jsval
  setCurrentMonth :: jsval
  setIsFixedCharge :: jsval
  setFixedRates :: obj
  setCurrentTariffBand :: obj

record setters_after =
  setTariffQuarters :: "obj list"
  setNMonths :: jsval
  setProjectedUsage :: "jsval list"
  setProjectedCosts :: "jsval list"
  setTotalProjectedCost :: jsval
  setSelectedSession1 :: jsval
  setSelectedSession2 :: jsval
  setUsageTips :: string
  setComparisonSummary :: string

definition default_fixedRates :: obj where
  "default_fixedRates =
     [(''peakUnitRate'', JNum (Fin 25)), (''offPeakUnitRate'', JNum (Fin 12)),
      (''standingCharge'', JNum (Fin 50))]"

definition default_currentTariffBand :: obj where
  "default_currentTariffBand =
     [(''peakUnitRate'', JNum (Fin 27)), (''standingCharge'', JNum (Fin 55)),
      (''offPeakUnitRate'', JNum (Fin 15))]"

text \<open>
  The callback of \<^verbatim>\<open>session.tariffQuarters.map\<close>: a copy of the band \<open>q\<close> in which
  \<^verbatim>\<open>standingCharge\<close> is the band's own value unless that is \<^verbatim>\<open>undefined\<close>, and 0 then.
  In the copy a field that \<open>q\<close> has keeps its place and a new one comes last.
\<close>

definition load_band :: "obj \<Rightarrow> obj" where
  "load_band q =
     AList.update ''standingCharge''
       (if get_prop q ''standingCharge'' \<noteq> JUndefined then get_prop q ''standingCharge''
        else JNum (Fin 0)) q"

text \<open>
  \<^verbatim>\<open>handleLoadSession\<close>. \<open>today\<close> is \<^verbatim>\<open>new Date().getMonth() + 1\<close>. The first
  component holds the calls made before the band list is read. Without a band list the
  call of \<^verbatim>\<open>map\<close> throws, nothing catches it, and the remaining setters are not called.
\<close>

definition handleLoadSession ::
  "int \<Rightarrow> session \<Rightarrow> setters_before \<times> (js_error + setters_after)" where
  "handleLoadSession today sess =
     (\<lparr>setSessionName = stored_name sess,
       setMonthlyUsageProjectionBasis = stored_monthlyUsageProjectionBasis sess,
       setPeakPercentage = js_or (stored_peakPercentage sess) (JNum (Fin 70)),
       setCurrentMonth = js_or (stored_currentMonth sess) (JNum (Fin (of_int today))),
       setIsFixedCharge = js_or (stored_isFixedCharge sess) (JBool False),
       setFixedRates =
         (case stored_fixedRates sess of None \<Rightarrow> default_fixedRates | Some r \<Rightarrow> r),
       setCurrentTariffBand =
         (case stored_currentTariffBand sess of
            None \<Rightarrow> default_currentTariffBand
          | Some r \<Rightarrow> r)\<rparr>,
      (case stored_tariffQuarters sess of
         None \<Rightarrow> Inl TypeError
       | Some qs \<Rightarrow>
           Inr \<lparr>setTariffQuarters = map load_band qs,
                setNMonths = stored_nMonths sess,
                setProjectedUsage =
                  (case stored_projectedUsage sess of None \<Rightarrow> [] | Some xs \<Rightarrow> xs),
                setProjectedCosts =
                  (case stored_projectedCosts sess of None \<Rightarrow> [] | Some xs \<Rightarrow> xs),
                setTotalProjectedCost =
                  js_or (stored_totalProjectedCost sess) (JNum (Fin 0)),
                setSelectedSession1 = JNull,
                setSelectedSession2 = JNull,
                setUsageTips = [],
                setComparisonSummary = []\<rparr>))"

text \<open>
  A session as \<^verbatim>\<open>handleSaveSession\<close> stored it before the peak percentage and the
  standing charge of a band existed: the state on loading, without those fields.
\<close>

definition old_session :: session where
  "old_session =
     \<lparr>stored_name = JStr ''winter'',
      stored_monthlyUsageProjectionBasis = JStr ''200, 180'',
      stored_peakPercentage = JUndefined,
      stored_currentMonth = JNum (Fin 7),
      stored_isFixedCharge = JBool False,
      stored_fixedRates = None,
      stored_currentTariffBand = None,
      stored_tariffQuarters =
        Some [[(''name'', JStr ''Q1''), (''peakUnitRate'', JNum (Fin 27)),
               (''offPeakUnitRate'', JNum (Fin 15))],
              [(''name'', JStr ''Q2''), (''peakUnitRate'', JNum (Fin 28)),
               (''standingCharge'', JNum (Fin 56)), (''offPeakUnitRate'', JNum (Fin 16))]],
      stored_nMonths = JNum (Fin 12),
      stored_projectedUsage = None,
      stored_projectedCosts = None,
      stored_totalProjectedCost = JUndefined\<rparr>"

section \<open>The specification's formulas\<close>

text \<open>
  The specification's \<open>round2(x) = round(x * 100) / 100\<close>, with the rounding of
  \<^verbatim>\<open>Math.round\<close>, in the arithmetic.
\<close>

definition round2 :: "arithmetic \<Rightarrow> number \<Rightarrow> number" where
  "round2 ar x = num_div ar (Math_round (num_mul ar x (Fin 100))) (Fin 100)"

text \<open>
  The rate that the specification selects for month \<open>i\<close>: the fixed rates in fixed mode,
  else the band of the quarter, the third band from month index 6 on.
\<close>

definition spec_rate :: "app_state \<Rightarrow> nat \<Rightarrow> rates" where
  "spec_rate s i =
     (if isFixedCharge s then fixedRates s
      else rates.truncate
             (tariffQuarters s ! (if i \<le> 2 then 0 else if i \<le> 5 then 1 else 2)))"

text \<open>
  The cost of a month as the specification writes it, before rounding: \<open>unitCost +
  standingCost\<close> with \<open>unitCost = peakUsage * peakUnitRate / 100 + offPeakUsage *
  offPeakUnitRate / 100\<close> and \<open>standingCost = daysInMonth * standingCharge / 100\<close>, in the
  arithmetic.
\<close>

definition spec_monthCost ::
  "arithmetic \<Rightarrow> rates \<Rightarrow> number \<Rightarrow> number \<Rightarrow> number \<Rightarrow> number" where
  "spec_monthCost ar rate peakU offPeakU days =
     (let unitCost =
            num_add ar (num_div ar (num_mul ar peakU (peakUnitRate rate)) (Fin 100))
                       (num_div ar (num_mul ar offPeakU (offPeakUnitRate rate)) (Fin 100));
          standingCost = num_div ar (num_mul ar days (standingCharge rate)) (Fin 100)
      in num_add ar unitCost standingCost)"

text \<open>
  The month cost of the specification for month \<open>i\<close> of a projection over \<open>usageBasis\<close>,
  with the split of the usage that the loop makes.
\<close>

definition spec_cost :: "arithmetic \<Rightarrow> app_state \<Rightarrow> number list \<Rightarrow> nat \<Rightarrow> number" where
  "spec_cost ar s usageBasis i =
     spec_monthCost ar (spec_rate s i)
       (peakUsage ar s (usageBasis ! (i mod length usageBasis)))
       (offPeakUsage ar s (usageBasis ! (i mod length usageBasis)))
       (daysInMonth i)"

text \<open>
  Band \<open>t\<close> is the one applied to month \<open>i\<close>: it is the applicable tariff and the cost of
  the month is computed from its rates.
\<close>

definition band_applied ::
  "arithmetic \<Rightarrow> app_state \<Rightarrow> number list \<Rightarrow> nat \<Rightarrow> band \<Rightarrow> bool" where
  "band_applied ar s usageBasis i t =
     (applicableTariff (tariffQuarters s) i = Some t
      \<and> monthCost ar s usageBasis i =
          Inr (num_add ar
                (totalUnitCost ar t
                   (peakUsage ar s (usageBasis ! (i mod length usageBasis)))
                   (offPeakUsage ar s (usageBasis ! (i mod length usageBasis))))
                (totalStandingChargeCost ar t (daysInMonth i))))"

text \<open>All three rates of a tariff are finite numbers.\<close>

definition finite_rates :: "'a rates_scheme \<Rightarrow> bool" where
  "finite_rates r =
     (isFinite (peakUnitRate r) \<and> isFinite (standingCharge r) \<and> isFinite (offPeakUnitRate r))"

text \<open>
  The state in which the component starts, for a given current month (the source takes it
  from the clock).
\<close>

definition initial_state :: "int \<Rightarrow> app_state" where
  "initial_state month =
     \<lparr>monthlyUsageProjectionBasis =
        ''200, 180, 220, 300, 350, 400, 420, 380, 300, 250, 200, 180'',
      peakPercentage = 70,
      nMonths = 12,
      currentMonth = month,
      isFixedCharge = False,
      fixedRates =
        \<lparr>peakUnitRate = Fin 25, standingCharge = Fin 50, offPeakUnitRate = Fin 12\<rparr>,
      currentTariffBand =
        \<lparr>peakUnitRate = Fin 27, standingCharge = Fin 55, offPeakUnitRate = Fin 15\<rparr>,
      tariffQuarters =
        [\<lparr>peakUnitRate = Fin 27, standingCharge = Fin 55, offPeakUnitRate = Fin 15,
          name = ''Current Month''\<rparr>,
         \<lparr>peakUnitRate = Fin (55 / 2), standingCharge = Fin (111 / 2),
          offPeakUnitRate = Fin (31 / 2), name = ''Next Quarter''\<rparr>,
         \<lparr>peakUnitRate = Fin 28, standingCharge = Fin 56, offPeakUnitRate = Fin 16,
          name = ''Following Quarter''\<rparr>],
      projectedUsage = [],
      projectedCosts = [],
      totalProjectedCost = Fin 0,
      error = None\<rparr>"

section \<open>Arithmetic of the model\<close>

lemma floor_rat_numeral_div [simp]:
  "\<lfloor>numeral a / numeral b :: rat\<rfloor> = numeral a div numeral b"
  by (metis floor_divide_of_int_eq of_int_numeral)

lemma floor_rat_neg_numeral_div [simp]:
  "\<lfloor>- (numeral a / numeral b) :: rat\<rfloor> = - numeral a div numeral b"
  by (metis divide_minus_left floor_divide_of_int_eq of_int_neg_numeral of_int_numeral)

lemma nearest_hundredth:
  "\<bar>of_int \<lfloor>y * 100 + 1 / 2\<rfloor> / 100 - y\<bar> \<le> 1 / 200" for y :: rat
proof -
  define n where "n = \<lfloor>y * 100 + 1 / 2\<rfloor>"
  have "of_int n \<le> y * 100 + 1 / 2" "y * 100 + 1 / 2 < of_int n + 1"
    unfolding n_def by linarith+
  then have "\<bar>of_int n / 100 - y\<bar> \<le> 1 / 200"
    by linarith
  then show ?thesis by (simp only: n_def)
qed

text \<open>Rounding to two decimals moves a value by at most half a hundredth.\<close>

lemma toFixed2_error: "\<bar>toFixed2 x - x\<bar> \<le> 1 / 200"
proof (cases "10 ^ 21 \<le> \<bar>x\<bar>")
  case True
  then show ?thesis by (simp add: toFixed2_def)
next
  case small: False
  show ?thesis
  proof (cases "x < 0")
    case True
    have "toFixed2 x - x = - (of_int \<lfloor>(- x) * 100 + 1 / 2\<rfloor> / 100 - (- x))"
      using True small by (simp add: toFixed2_def)
    then have "\<bar>toFixed2 x - x\<bar> = \<bar>of_int \<lfloor>(- x) * 100 + 1 / 2\<rfloor> / 100 - (- x)\<bar>"
      by (simp only: abs_minus_cancel)
    then show ?thesis using nearest_hundredth [of "- x"] by simp
  next
    case False
    then show ?thesis using nearest_hundredth [of x] small by (simp add: toFixed2_def)
  qed
qed

lemma int_succ_div12:
  "(int i + 1) div 12 = (if i mod 12 = 11 then int (i div 12) + 1 else int (i div 12))"
proof -
  have "(int i + 1) div 12 = int (Suc i div 12)"
    by (simp add: zdiv_int)
  also have "Suc i div 12 = (if i mod 12 = 11 then Suc (i div 12) else i div 12)"
    by (simp add: div_Suc mod_Suc)
  finally show ?thesis by simp
qed

lemma int_succ_mod12:
  "(int i + 1) mod 12 = (if i mod 12 = 11 then 0 else int (i mod 12) + 1)"
proof -
  have "(int i + 1) mod 12 = int (Suc i mod 12)"
    by (simp add: zmod_int add.commute)
  also have "Suc i mod 12 = (if i mod 12 = 11 then 0 else Suc (i mod 12))"
    by (simp add: mod_Suc)
  finally show ?thesis by simp
qed

lemma js_rem_nonneg: "0 \<le> a \<Longrightarrow> js_rem a 12 = a mod 12"
  by (simp add: js_rem_def)

section \<open>The loop and the cost of a month\<close>

text \<open>
  When no month throws, the loop appends one entry per remaining month to each list and
  adds the costs to the total from the left.
\<close>

lemma projection_loop_all:
  assumes "\<And>j. j < nMonths s \<Longrightarrow> monthCost ar s ub j = Inr (c j)"
  shows "projection_loop ar s ub i (us, cs, tot) =
    Inr (us @ map (\<lambda>j. ub ! (j mod length ub)) [i..<nMonths s],
         cs @ map (\<lambda>j. num_toFixed2 ar (c j)) [i..<nMonths s],
         foldl (num_add ar) tot (map c [i..<nMonths s]))"
  using assms
proof (induction ar s ub i "(us, cs, tot)" arbitrary: us cs tot rule: projection_loop.induct)
  case (1 ar s ub i us cs tot)
  show ?case
  proof (cases "i < nMonths s")
    case True
    have mc: "monthCost ar s ub i = Inr (c i)"
      using True "1.prems" by simp
    have step: "[i..<nMonths s] = i # [Suc i..<nMonths s]"
      using True by (simp add: upt_conv_Cons)
    show ?thesis
      using "1.hyps" [OF True mc "1.prems"] True
      by (subst projection_loop.simps) (simp add: mc step)
  next
    case False
    then show ?thesis
      by (subst projection_loop.simps) simp
  qed
qed

lemma applicableTariff_three:
  "3 \<le> length tq \<Longrightarrow>
   applicableTariff tq i = Some (tq ! (if i \<le> 2 then 0 else if i \<le> 5 then 1 else 2))"
  by (auto simp add: applicableTariff_def array_get_def)

text \<open>
  In fixed mode, or with three bands, no month throws, and the cost of the month is the
  specification's formula in the arithmetic.
\<close>

lemma monthCost_spec:
  assumes "isFixedCharge s \<or> 3 \<le> length (tariffQuarters s)"
  shows "monthCost ar s ub i = Inr (spec_cost ar s ub i)"
  using assms
  by (auto simp add: monthCost_def Let_def applicableTariff_three totalUnitCost_def
      totalStandingChargeCost_def spec_cost_def spec_monthCost_def spec_rate_def
      rates.truncate_def)

text \<open>The state after a projection that does not throw.\<close>

lemma calculateProjection_ok:
  assumes "ub = usageBasis_of ar (monthlyUsageProjectionBasis s)" and "ub \<noteq> []"
    and "isFixedCharge s \<or> 3 \<le> length (tariffQuarters s)"
  shows "calculateProjection ar s =
    s\<lparr>projectedUsage := map (\<lambda>j. ub ! (j mod length ub)) [0..<nMonths s],
      projectedCosts := map (\<lambda>j. num_toFixed2 ar (spec_cost ar s ub j)) [0..<nMonths s],
      totalProjectedCost :=
        foldl (num_add ar) (Fin 0) (map (spec_cost ar s ub) [0..<nMonths s]),
      error := None\<rparr>"
proof -
  have "projection_loop ar s ub 0 ([], [], Fin 0) =
    Inr ([] @ map (\<lambda>j. ub ! (j mod length ub)) [0..<nMonths s],
         [] @ map (\<lambda>j. num_toFixed2 ar (spec_cost ar s ub j)) [0..<nMonths s],
         foldl (num_add ar) (Fin 0) (map (spec_cost ar s ub) [0..<nMonths s]))"
    by (rule projection_loop_all) (rule monthCost_spec [OF assms(3)])
  then show ?thesis
    using assms(1,2) by (simp add: calculateProjection_def Let_def)
qed

lemma foldl_num_add_Fin:
  "foldl (num_add Exact) (Fin a) (map (\<lambda>j. Fin (f j)) xs) = Fin (a + sum_list (map f xs))"
  by (induction xs arbitrary: a) (simp_all add: add.assoc)

lemma sum_list_rounding:
  "\<bar>sum_list (map f xs) - sum_list (map (\<lambda>j. toFixed2 (f j)) xs)\<bar> \<le> of_nat (length xs) / 200"
proof (induction xs)
  case Nil
  then show ?case by simp
next
  case (Cons x xs)
  let ?S = "sum_list (map f xs)" and ?R = "sum_list (map (\<lambda>j. toFixed2 (f j)) xs)"
  have one: "\<bar>f x - toFixed2 (f x)\<bar> \<le> 1 / 200"
    using toFixed2_error [of "f x"] by (simp only: abs_minus_commute)
  have "\<bar>(f x + ?S) - (toFixed2 (f x) + ?R)\<bar> \<le> \<bar>f x - toFixed2 (f x)\<bar> + \<bar>?S - ?R\<bar>"
    by linarith
  also have "\<dots> \<le> 1 / 200 + of_nat (length xs) / 200"
    using one Cons.IH by linarith
  also have "\<dots> = of_nat (length (x # xs)) / 200"
    by (simp add: add_divide_distrib)
  finally show ?case by simp
qed

section \<open>The projection does not read the current month\<close>

lemma monthCost_currentMonth:
  "monthCost ar (s\<lparr>currentMonth := m\<rparr>) ub i = monthCost ar s ub i"
  by (simp add: monthCost_def Let_def peakUsage_def offPeakUsage_def offPeakPercentage_def
      cong: if_cong option.case_cong)

lemma projection_loop_currentMonth:
  "projection_loop ar (s\<lparr>currentMonth := m\<rparr>) ub i acc = projection_loop ar s ub i acc"
proof (induction ar s ub i acc rule: projection_loop.induct)
  case (1 ar s ub i us cs tot)
  then show ?case
    by (simp add: projection_loop.simps [of ar s ub i]
        projection_loop.simps [of ar "s\<lparr>currentMonth := m\<rparr>" ub i]
        monthCost_currentMonth split: sum.splits)
qed

lemma calculateProjection_currentMonth:
  "calculateProjection ar (s\<lparr>currentMonth := m\<rparr>) =
   (calculateProjection ar s)\<lparr>currentMonth := m\<rparr>"
  by (simp add: calculateProjection_def Let_def projection_loop_currentMonth
      split: sum.splits prod.splits)

section \<open>Entries of the usage text\<close>

lemma split_comma_nonempty: "split_comma s \<noteq> []"
  by (induction s) (auto split: list.splits)

text \<open>A comma separates the pieces before it from the pieces after it.\<close>

lemma split_comma_append:
  "split_comma (a @ CHR '','' # b) = split_comma a @ split_comma b"
proof (induction a)
  case Nil
  then show ?case by simp
next
  case (Cons c a)
  obtain w ws where w: "split_comma a = w # ws"
    using split_comma_nonempty [of a] by (cases "split_comma a") auto
  show ?case
    using Cons w by simp
qed

lemma split_comma_entry: "CHR '','' \<notin> set w \<Longrightarrow> split_comma w = [w]"
  by (induction w) auto

lemma usageBasis_of_append:
  "usageBasis_of ar (a @ CHR '','' # b) = usageBasis_of ar a @ usageBasis_of ar b"
  by (simp add: usageBasis_of_def split_comma_append)

lemma usageBasis_of_entry:
  "CHR '','' \<notin> set w \<Longrightarrow>
   usageBasis_of ar w = (if isNaN (Number ar w) then [] else [Number ar w])"
  by (simp add: usageBasis_of_def split_comma_entry)

lemma whitespace_not_comma: "isStrWhiteSpaceChar c \<Longrightarrow> c \<noteq> CHR '',''"
  by (auto simp add: isStrWhiteSpaceChar_def)

text \<open>Text of white space only, the empty text included, converts to zero.\<close>

lemma Number_blank:
  assumes "list_all isStrWhiteSpaceChar w"
  shows "Number ar w = Fin 0"
proof -
  have d: "dropWhile isStrWhiteSpaceChar w = []"
    using assms by (simp add: list_all_iff)
  have "trim w = []"
    by (simp only: trim_def d rev.simps dropWhile.simps)
  then show ?thesis
    by (simp add: Number_def)
qed

lemma usageBasis_of_blank:
  assumes "list_all isStrWhiteSpaceChar w"
  shows "usageBasis_of ar w = [Fin 0]"
proof -
  have "CHR '','' \<notin> set w"
    using assms whitespace_not_comma by (auto simp add: list_all_iff)
  then show ?thesis
    using assms by (simp add: usageBasis_of_entry Number_blank)
qed

text \<open>
  The message of the caught exception is not the message for an empty basis, so the
  latter is reported exactly when the basis is empty.
\<close>

lemma error_empty_iff:
  "error (calculateProjection ar s) = Some ''Monthly Usage Projection Basis cannot be empty.''
   \<longleftrightarrow> usageBasis_of ar (monthlyUsageProjectionBasis s) = []"
  by (simp add: calculateProjection_def Let_def split: sum.splits prod.splits)

lemma calculateProjection_empty:
  assumes "usageBasis_of ar (monthlyUsageProjectionBasis s) = []"
  shows "calculateProjection ar s =
    s\<lparr>error := Some ''Monthly Usage Projection Basis cannot be empty.'',
      projectedUsage := [], projectedCosts := [], totalProjectedCost := Fin 0\<rparr>"
  using assms by (simp add: calculateProjection_def)

section \<open>Rounding to the nearest double\<close>

lemma floor_log2_bounds:
  assumes "0 < a"
  shows "2 powi floor_log2 a \<le> a" "a < 2 powi (floor_log2 a + 1)"
proof -
  have "2 powi floor_log2 a \<le> a \<and> a < 2 powi (floor_log2 a + 1)"
  proof (cases "1 \<le> a")
    case True
    define n where "n = \<lfloor>a\<rfloor>"
    have n: "1 \<le> n"
      using True by (simp add: n_def le_floor_iff)
    have e: "floor_log2 a = bitlen n - 1"
      using True by (simp add: floor_log2_def n_def)
    have bl: "2 ^ nat (bitlen n - 1) \<le> n" "n < 2 ^ nat (bitlen n)"
      using bitlen_bounds [of n] n by simp_all
    have "1 \<le> bitlen n"
      using n by (simp add: bitlen_ge_iff_power)
    then have pos: "0 \<le> bitlen n - 1"
      by simp
    have p1: "(2::rat) powi (bitlen n - 1) = of_int (2 ^ nat (bitlen n - 1))"
      using pos by (simp add: power_int_nonneg_exp)
    have p2: "(2::rat) powi (bitlen n - 1 + 1) = of_int (2 ^ nat (bitlen n))"
      using pos by (simp add: power_int_nonneg_exp)
    have "(of_int (2 ^ nat (bitlen n - 1)) :: rat) \<le> of_int n"
      using bl(1) by (simp only: of_int_le_iff)
    also have "\<dots> \<le> a"
      by (simp add: n_def)
    finally have lo: "(2::rat) powi (bitlen n - 1) \<le> a"
      by (simp only: p1)
    have "n + 1 \<le> 2 ^ nat (bitlen n)"
      using bl(2) by simp
    then have "(of_int (n + 1) :: rat) \<le> of_int (2 ^ nat (bitlen n))"
      by (simp only: of_int_le_iff)
    moreover have "a < of_int (n + 1)"
      using floor_correct [of a] by (simp add: n_def)
    ultimately have hi: "a < (2::rat) powi (bitlen n - 1 + 1)"
      by (simp only: p2)
    show ?thesis
      using lo hi by (simp only: e)
  next
    case False
    define m where "m = \<lceil>1 / a\<rceil>"
    have inv: "1 < 1 / a"
      using False assms by simp
    have m: "2 \<le> m"
    proof -
      have "1 < m"
        unfolding m_def using inv by (simp add: less_ceiling_iff)
      then show ?thesis by simp
    qed
    define k where "k = bitlen (m - 1)"
    have e: "floor_log2 a = - k"
      using False by (simp add: floor_log2_def m_def k_def)
    have bl: "2 ^ nat (k - 1) \<le> m - 1" "m - 1 < 2 ^ nat k"
      using bitlen_bounds [of "m - 1"] m by (simp_all add: k_def)
    have k: "1 \<le> k"
      using m by (simp add: k_def bitlen_ge_iff_power)
    have up: "1 / a \<le> of_int m"
      by (simp add: m_def)
    have "m \<le> 2 ^ nat k"
      using bl(2) by simp
    then have "(of_int m :: rat) \<le> 2 ^ nat k"
      by simp
    with up have "1 / a \<le> 2 ^ nat k"
      by (rule order_trans)
    then have "1 \<le> 2 ^ nat k * a"
      using assms by (simp add: pos_divide_le_eq)
    then have "1 / 2 ^ nat k \<le> a"
      by (simp add: pos_divide_le_eq mult.commute)
    moreover have "(2::rat) powi (- k) = 1 / 2 ^ nat k"
      using k by (simp add: power_int_def field_simps)
    ultimately have lo: "(2::rat) powi (- k) \<le> a"
      by simp
    have "of_int (m - 1) < 1 / a"
      unfolding m_def by (metis ceiling_correct of_int_diff of_int_1)
    moreover have "(2::rat) ^ nat (k - 1) \<le> of_int (m - 1)"
      using bl(1) by (simp only: numeral_power_le_of_int_cancel_iff)
    ultimately have "(2::rat) ^ nat (k - 1) < 1 / a"
      by (rule order_le_less_trans [rotated])
    then have lt: "2 ^ nat (k - 1) * a < 1"
      using assms by (simp add: pos_less_divide_eq)
    have hi: "a < (2::rat) powi (- k + 1)"
    proof (cases "k = 1")
      case True
      then show ?thesis
        using False by simp
    next
      case False
      then have "- k + 1 < 0"
        using k by simp
      then have "(2::rat) powi (- k + 1) = 1 / 2 ^ nat (k - 1)"
        by (simp add: power_int_def field_simps)
      moreover have "a < 1 / 2 ^ nat (k - 1)"
        using lt by (simp add: pos_less_divide_eq mult.commute)
      ultimately show ?thesis
        by simp
    qed
    show ?thesis
      using lo hi by (simp only: e)
  qed
  then show "2 powi floor_log2 a \<le> a" "a < 2 powi (floor_log2 a + 1)"
    by simp_all
qed

lemma floor_log2_unique:
  assumes "0 < a" "2 powi k \<le> a" "a < 2 powi (k + 1)"
  shows "floor_log2 a = k"
proof -
  note b = floor_log2_bounds [OF assms(1)]
  have "\<not> k + 1 \<le> floor_log2 a"
  proof
    assume "k + 1 \<le> floor_log2 a"
    then have "(2::rat) powi (k + 1) \<le> 2 powi floor_log2 a"
      by (rule power_int_increasing) simp
    with b(1) assms(3) show False
      by simp
  qed
  moreover have "\<not> floor_log2 a + 1 \<le> k"
  proof
    assume "floor_log2 a + 1 \<le> k"
    then have "(2::rat) powi (floor_log2 a + 1) \<le> 2 powi k"
      by (rule power_int_increasing) simp
    with b(2) assms(2) show False
      by simp
  qed
  ultimately show ?thesis
    by simp
qed

lemma round_half_even_of_int: "round_half_even (of_int n) = n"
  by (simp add: round_half_even_def)

lemma round_half_even_error: "\<bar>of_int (round_half_even q) - q\<bar> \<le> 1 / 2"
proof -
  define n where "n = \<lfloor>q\<rfloor>"
  have "of_int n \<le> q" "q < of_int n + 1"
    using floor_correct [of q] by (simp_all add: n_def)
  then show ?thesis
    unfolding round_half_even_def Let_def n_def [symmetric]
    by (auto simp: abs_le_iff)
qed

lemma round_half_even_mono:
  "q \<le> of_int m \<Longrightarrow> round_half_even q \<le> m" "of_int m \<le> q \<Longrightarrow> m \<le> round_half_even q"
proof -
  define n where "n = \<lfloor>q\<rfloor>"
  have b: "of_int n \<le> q" "q < of_int n + 1"
    using floor_correct [of q] by (simp_all add: n_def)
  {
    assume a: "q \<le> of_int m"
    have "n \<le> m"
      using floor_mono [OF a] by (simp add: n_def)
    show "round_half_even q \<le> m"
    proof (cases "n = m")
      case True
      then have "q = of_int n"
        using a b by simp
      then show ?thesis
        using True by (simp add: round_half_even_of_int)
    next
      case False
      then have "n + 1 \<le> m"
        using \<open>n \<le> m\<close> by simp
      moreover have "round_half_even q \<le> n + 1"
        unfolding round_half_even_def Let_def n_def [symmetric] by simp
      ultimately show ?thesis
        by simp
    qed
  }
  {
    assume a: "of_int m \<le> q"
    then have "m \<le> n"
      by (simp add: n_def le_floor_iff)
    moreover have "n \<le> round_half_even q"
      unfolding round_half_even_def Let_def n_def [symmetric] by simp
    ultimately show "m \<le> round_half_even q"
      by simp
  }
qed

lemma binary64_alt:
  assumes "x \<noteq> 0"
  shows "binary64 x =
    (if 1024 \<le> exponent_of x \<or> (exponent_of x = 1023 \<and> mantissa_of x = 2 ^ 53)
     then inf_of_sign (x < 0)
     else Fin (if x < 0 then - (of_int (mantissa_of x) * 2 powi (exponent_of x - 52))
               else of_int (mantissa_of x) * 2 powi (exponent_of x - 52)))"
  using assms unfolding binary64_def Let_def exponent_of_def mantissa_of_def
  by (simp only: if_False) auto

lemma power_int_two_pos: "0 < (2::rat) powi k"
  by (simp add: zero_less_power_int)

lemma power_int_two_split: "(2::rat) powi (k + int m) = 2 powi k * 2 ^ m"
  by (simp add: power_int_add)

lemma exponent_of_bounds:
  assumes "x \<noteq> 0"
  shows "- 1022 \<le> exponent_of x"
    and "\<bar>x\<bar> < 2 powi (exponent_of x + 1)"
    and "- 1022 \<le> floor_log2 \<bar>x\<bar> \<Longrightarrow> 2 powi exponent_of x \<le> \<bar>x\<bar>"
proof -
  have a: "0 < \<bar>x\<bar>"
    using assms by simp
  note b = floor_log2_bounds [OF a]
  show "- 1022 \<le> exponent_of x"
    by (simp add: exponent_of_def)
  have "floor_log2 \<bar>x\<bar> + 1 \<le> exponent_of x + 1"
    by (simp add: exponent_of_def)
  then have "(2::rat) powi (floor_log2 \<bar>x\<bar> + 1) \<le> 2 powi (exponent_of x + 1)"
    by (rule power_int_increasing) simp
  with b(2) show "\<bar>x\<bar> < 2 powi (exponent_of x + 1)"
    by simp
  assume "- 1022 \<le> floor_log2 \<bar>x\<bar>"
  then have "exponent_of x = floor_log2 \<bar>x\<bar>"
    by (simp add: exponent_of_def)
  with b(1) show "2 powi exponent_of x \<le> \<bar>x\<bar>"
    by simp
qed

lemma mantissa_of_bounds:
  assumes "x \<noteq> 0"
  shows "0 \<le> mantissa_of x"
    and "mantissa_of x \<le> 2 ^ 53"
    and "- 1022 \<le> floor_log2 \<bar>x\<bar> \<Longrightarrow> 2 ^ 52 \<le> mantissa_of x"
proof -
  define u :: rat where "u = 2 powi (exponent_of x - 52)"
  have u: "0 < u"
    by (simp add: u_def power_int_two_pos)
  have "exponent_of x = exponent_of x - 52 + int 52"
    by simp
  then have u52: "2 powi exponent_of x = u * 2 ^ 52"
    unfolding u_def by (metis power_int_two_split)
  have "exponent_of x + 1 = exponent_of x - 52 + int 53"
    by simp
  then have u53: "2 powi (exponent_of x + 1) = u * 2 ^ 53"
    unfolding u_def by (simp only: power_int_two_split)
  note e = exponent_of_bounds [OF assms]
  have m: "mantissa_of x = round_half_even (\<bar>x\<bar> / u)"
    by (simp add: mantissa_of_def u_def)
  have "of_int 0 \<le> \<bar>x\<bar> / u"
    using u by simp
  then show "0 \<le> mantissa_of x"
    unfolding m by (rule round_half_even_mono)
  have "\<bar>x\<bar> < u * 2 ^ 53"
    using e(2) by (simp only: u53)
  then have "\<bar>x\<bar> / u \<le> of_int (2 ^ 53)"
    using u by (simp add: pos_divide_le_eq mult.commute)
  then show "mantissa_of x \<le> 2 ^ 53"
    unfolding m by (rule round_half_even_mono)
  assume "- 1022 \<le> floor_log2 \<bar>x\<bar>"
  then have "u * 2 ^ 52 \<le> \<bar>x\<bar>"
    using e(3) by (simp only: u52)
  then have "of_int (2 ^ 52) \<le> \<bar>x\<bar> / u"
    using u by (simp add: pos_le_divide_eq mult.commute)
  then show "2 ^ 52 \<le> mantissa_of x"
    unfolding m by (rule round_half_even_mono)
qed

lemma exponent_of_multiple:
  assumes "1 \<le> n" "n < 2 ^ 53" "- 1022 \<le> E" "E \<noteq> - 1022 \<longrightarrow> 2 ^ 52 \<le> n"
  shows "exponent_of (of_int n * 2 powi (E - 52)) = E"
proof -
  define u :: rat where "u = 2 powi (E - 52)"
  have u: "0 < u"
    by (simp add: u_def power_int_two_pos)
  have "E = E - 52 + int 52"
    by simp
  then have u52: "2 powi E = u * 2 ^ 52"
    unfolding u_def by (metis power_int_two_split)
  have "E + 1 = E - 52 + int 53"
    by simp
  then have u53: "2 powi (E + 1) = u * 2 ^ 53"
    unfolding u_def by (simp only: power_int_two_split)
  define a where "a = of_int n * u"
  have a: "0 < a"
    using assms(1) u by (simp add: a_def)
  have "(of_int n :: rat) < 2 ^ 53"
    using assms(2) by simp
  then have hi: "a < 2 powi (E + 1)"
    unfolding u53 a_def using u by (simp add: mult.commute)
  note b = floor_log2_bounds [OF a]
  have le: "floor_log2 a \<le> E"
  proof (rule ccontr)
    assume "\<not> floor_log2 a \<le> E"
    then have "E + 1 \<le> floor_log2 a"
      by simp
    then have "(2::rat) powi (E + 1) \<le> 2 powi floor_log2 a"
      by (rule power_int_increasing) simp
    with b(1) hi show False
      by simp
  qed
  have "max (floor_log2 a) (- 1022) = E"
  proof (cases "E = - 1022")
    case True
    then show ?thesis
      using le by simp
  next
    case False
    then have "2 ^ 52 \<le> n"
      using assms(4) by simp
    then have "(2::rat) ^ 52 \<le> of_int n"
      by simp
    then have "2 powi E \<le> a"
      unfolding u52 a_def using u by (simp add: mult.commute)
    then have "floor_log2 a = E"
      using a hi by (intro floor_log2_unique)
    then show ?thesis
      using assms(3) by simp
  qed
  moreover have "\<bar>a\<bar> = a"
    using a by simp
  ultimately show ?thesis
    by (simp add: exponent_of_def a_def u_def)
qed

lemma binary64_multiple:
  assumes "0 \<le> n" "n < 2 ^ 53" "- 1022 \<le> E" "E \<le> 1023" "E \<noteq> - 1022 \<longrightarrow> 2 ^ 52 \<le> n"
  shows "binary64 (of_int n * 2 powi (E - 52)) = Fin (of_int n * 2 powi (E - 52))"
    and "binary64 (- (of_int n * 2 powi (E - 52))) = Fin (- (of_int n * 2 powi (E - 52)))"
proof -
  define u :: rat where "u = 2 powi (E - 52)"
  have u: "0 < u"
    by (simp add: u_def power_int_two_pos)
  have "binary64 (of_int n * u) = Fin (of_int n * u)
    \<and> binary64 (- (of_int n * u)) = Fin (- (of_int n * u))"
  proof (cases "n = 0")
    case True
    then show ?thesis
      by (simp add: binary64_def)
  next
    case False
    then have n: "1 \<le> n"
      using assms(1) by simp
    define a where "a = of_int n * u"
    have a: "0 < a"
      using n u by (simp add: a_def)
    have e: "exponent_of a = E"
      unfolding a_def u_def using n assms(2,3,5) by (rule exponent_of_multiple)
    have e': "exponent_of (- a) = E"
      using e by (simp add: exponent_of_def)
    have abs_a: "\<bar>a\<bar> = a"
      using a by simp
    have quot: "a / u = of_int n"
      using u by (simp add: a_def)
    have m: "mantissa_of a = n"
      unfolding mantissa_of_def e
      by (simp only: abs_a u_def [symmetric] quot round_half_even_of_int)
    have m': "mantissa_of (- a) = n"
      using m e e' by (simp add: mantissa_of_def)
    have 1: "binary64 a = Fin a"
      using a assms(2,4) by (simp add: binary64_alt e m a_def [symmetric] u_def [symmetric])
    have 2: "binary64 (- a) = Fin (- a)"
      using a assms(2,4) by (simp add: binary64_alt e' m' a_def [symmetric] u_def [symmetric])
    show ?thesis
      using 1 2 by (simp add: a_def)
  qed
  then show "binary64 (of_int n * 2 powi (E - 52)) = Fin (of_int n * 2 powi (E - 52))"
    and "binary64 (- (of_int n * 2 powi (E - 52))) = Fin (- (of_int n * 2 powi (E - 52)))"
    by (simp_all add: u_def)
qed

lemma binary64_idem:
  assumes "binary64 x = Fin v"
  shows "binary64 v = Fin v"
proof (cases "x = 0")
  case True
  then show ?thesis
    using assms by (auto simp: binary64_def)
next
  case False
  define E where "E = exponent_of x"
  define n where "n = mantissa_of x"
  note eb = exponent_of_bounds [OF False, folded E_def]
  note mb = mantissa_of_bounds [OF False, folded n_def]
  have alt: "binary64 x =
    (if 1024 \<le> E \<or> (E = 1023 \<and> n = 2 ^ 53)
     then inf_of_sign (x < 0)
     else Fin (if x < 0 then - (of_int n * 2 powi (E - 52)) else of_int n * 2 powi (E - 52)))"
    by (simp only: binary64_alt [OF False] E_def n_def)
  have fin: "\<not> (1024 \<le> E \<or> (E = 1023 \<and> n = 2 ^ 53))"
    using assms alt by (auto simp: inf_of_sign_def split: if_splits)
  then have E: "E \<le> 1023"
    by simp
  have v: "v = (if x < 0 then - (of_int n * 2 powi (E - 52)) else of_int n * 2 powi (E - 52))"
    using assms alt fin by (simp only: if_False number.inject)
  have low: "E \<noteq> - 1022 \<longrightarrow> 2 ^ 52 \<le> n"
  proof
    assume "E \<noteq> - 1022"
    then have "- 1022 \<le> floor_log2 \<bar>x\<bar>"
      by (simp add: E_def exponent_of_def max_def split: if_splits)
    then show "2 ^ 52 \<le> n"
      by (rule mb(3))
  qed
  have both: "binary64 (of_int n * 2 powi (E - 52)) = Fin (of_int n * 2 powi (E - 52))
    \<and> binary64 (- (of_int n * 2 powi (E - 52))) = Fin (- (of_int n * 2 powi (E - 52)))"
  proof (cases "n = 2 ^ 53")
    case False
    then have "n < 2 ^ 53"
      using mb(2) by simp
    with mb(1) show ?thesis
      using eb(1) E low by (intro conjI binary64_multiple)
  next
    case True
    then have E': "E + 1 \<le> 1023"
      using fin E by simp
    have "E + 1 - 52 = E - 52 + int 1"
      by simp
    then have "(2::rat) powi (E + 1 - 52) = 2 powi (E - 52) * 2"
      by (simp only: power_int_two_split power_one_right)
    then have eq: "of_int n * (2::rat) powi (E - 52) = of_int (2 ^ 52) * 2 powi (E + 1 - 52)"
      using True by simp
    have "binary64 (of_int (2 ^ 52) * 2 powi (E + 1 - 52)) = Fin (of_int (2 ^ 52) * 2 powi (E + 1 - 52))
      \<and> binary64 (- (of_int (2 ^ 52) * 2 powi (E + 1 - 52))) = Fin (- (of_int (2 ^ 52) * 2 powi (E + 1 - 52)))"
      using eb(1) E' by (intro conjI binary64_multiple) simp_all
    then show ?thesis
      by (simp only: eq)
  qed
  show ?thesis
    using both by (simp add: v)
qed

lemma binary64_error:
  assumes "binary64 x = Fin v" "2 powi (- 1022) \<le> \<bar>x\<bar>"
  shows "\<bar>v - x\<bar> \<le> \<bar>x\<bar> / 2 ^ 53"
proof -
  have nz: "x \<noteq> 0"
    using assms(2) power_int_two_pos [of "- 1022"] by auto
  define E where "E = exponent_of x"
  define n where "n = mantissa_of x"
  define u :: rat where "u = 2 powi (E - 52)"
  have u: "0 < u"
    by (simp add: u_def power_int_two_pos)
  have a: "0 < \<bar>x\<bar>"
    using nz by simp
  have fl: "- 1022 \<le> floor_log2 \<bar>x\<bar>"
  proof (rule ccontr)
    assume "\<not> - 1022 \<le> floor_log2 \<bar>x\<bar>"
    then have "floor_log2 \<bar>x\<bar> + 1 \<le> - 1022"
      by simp
    then have "(2::rat) powi (floor_log2 \<bar>x\<bar> + 1) \<le> 2 powi (- 1022)"
      by (rule power_int_increasing) simp
    with floor_log2_bounds(2) [OF a] assms(2) show False
      by simp
  qed
  have "E = E - 52 + int 52"
    by simp
  then have u52: "2 powi E = u * 2 ^ 52"
    unfolding u_def by (metis power_int_two_split)
  have "u * 2 ^ 52 \<le> \<bar>x\<bar>"
    using exponent_of_bounds(3) [OF nz fl] by (simp only: E_def [symmetric] u52)
  then have ub: "u / 2 \<le> \<bar>x\<bar> / 2 ^ 53"
    by simp
  have alt: "binary64 x =
    (if 1024 \<le> E \<or> (E = 1023 \<and> n = 2 ^ 53)
     then inf_of_sign (x < 0)
     else Fin (if x < 0 then - (of_int n * u) else of_int n * u))"
    by (simp only: binary64_alt [OF nz] E_def n_def u_def)
  have fin: "\<not> (1024 \<le> E \<or> (E = 1023 \<and> n = 2 ^ 53))"
    using assms(1) alt by (auto simp: inf_of_sign_def split: if_splits)
  have v: "v = (if x < 0 then - (of_int n * u) else of_int n * u)"
    using assms(1) alt fin by (simp only: if_False number.inject)
  have "\<bar>of_int n - \<bar>x\<bar> / u\<bar> \<le> 1 / 2"
    unfolding n_def mantissa_of_def E_def [symmetric] u_def [symmetric]
    by (rule round_half_even_error)
  then have "\<bar>of_int n - \<bar>x\<bar> / u\<bar> * u \<le> 1 / 2 * u"
    using u by (simp only: mult_le_cancel_right_pos)
  moreover have "\<bar>of_int n - \<bar>x\<bar> / u\<bar> * u = \<bar>of_int n * u - \<bar>x\<bar>\<bar>"
  proof -
    have "(of_int n - \<bar>x\<bar> / u) * u = of_int n * u - \<bar>x\<bar>"
      using u by (simp add: left_diff_distrib)
    then have "\<bar>of_int n * u - \<bar>x\<bar>\<bar> = \<bar>of_int n - \<bar>x\<bar> / u\<bar> * \<bar>u\<bar>"
      by (simp only: abs_mult [symmetric])
    then show ?thesis
      using u by (simp only: abs_of_pos)
  qed
  ultimately have err: "\<bar>of_int n * u - \<bar>x\<bar>\<bar> \<le> u / 2"
    by simp
  have "\<bar>v - x\<bar> = \<bar>of_int n * u - \<bar>x\<bar>\<bar>"
    unfolding v by (cases "x < 0") (simp_all add: abs_minus_commute)
  with err ub show ?thesis
    by simp
qed

lemma binary64_bounded:
  assumes "\<bar>x\<bar> \<le> 2 ^ k" "k \<le> 1023"
  shows "\<exists>v. binary64 x = Fin v \<and> \<bar>v\<bar> \<le> 2 ^ k"
proof (cases "x = 0")
  case True
  then show ?thesis
    by (simp add: binary64_def)
next
  case False
  define E where "E = exponent_of x"
  define n where "n = mantissa_of x"
  define u :: rat where "u = 2 powi (E - 52)"
  have u: "0 < u"
    by (simp add: u_def power_int_two_pos)
  have a: "0 < \<bar>x\<bar>"
    using False by simp
  have k: "(2::rat) ^ k = 2 powi int k"
    by simp
  have fl: "floor_log2 \<bar>x\<bar> \<le> int k"
  proof (rule ccontr)
    assume "\<not> floor_log2 \<bar>x\<bar> \<le> int k"
    then have "int k + 1 \<le> floor_log2 \<bar>x\<bar>"
      by simp
    then have "(2::rat) powi (int k + 1) \<le> 2 powi floor_log2 \<bar>x\<bar>"
      by (rule power_int_increasing) simp
    moreover have "(2::rat) powi int k < 2 powi (int k + 1)"
      by (rule power_int_strict_increasing) simp_all
    ultimately show False
      using floor_log2_bounds(1) [OF a] assms(1) by (simp only: k)
  qed
  then have Ek: "E \<le> int k"
    by (simp add: E_def exponent_of_def)
  have Elow: "- 1022 \<le> E"
    by (simp add: E_def exponent_of_def)
  define j where "j = nat (int k - E + 52)"
  have j: "int k = E - 52 + int j" "52 \<le> j"
    using Ek by (simp_all add: j_def)
  have kj: "(2::rat) ^ k = u * 2 ^ j"
    unfolding k u_def j(1) by (simp only: power_int_two_split)
  have "\<bar>x\<bar> / u \<le> of_int (2 ^ j)"
    using assms(1) u by (simp add: kj pos_divide_le_eq mult.commute)
  then have nj: "n \<le> 2 ^ j"
    unfolding n_def mantissa_of_def E_def [symmetric] u_def [symmetric]
    by (rule round_half_even_mono)
  have n0: "0 \<le> n"
    using mantissa_of_bounds(1) [OF False] by (simp add: n_def)
  have alt: "binary64 x =
    (if 1024 \<le> E \<or> (E = 1023 \<and> n = 2 ^ 53)
     then inf_of_sign (x < 0)
     else Fin (if x < 0 then - (of_int n * u) else of_int n * u))"
    by (simp only: binary64_alt [OF False] E_def n_def u_def)
  have E: "\<not> 1024 \<le> E"
    using Ek assms(2) by simp
  have top: "\<not> (E = 1023 \<and> n = 2 ^ 53)"
  proof
    assume h: "E = 1023 \<and> n = 2 ^ 53"
    then have "k = 1023"
      using Ek assms(2) by simp
    then have "j = 52"
      using h by (simp add: j_def)
    then show False
      using nj h by simp
  qed
  have "(of_int n :: rat) \<le> 2 ^ j"
    using nj by simp
  then have "of_int n * u \<le> 2 ^ k"
    unfolding kj using u by (simp add: mult.commute)
  moreover have "0 \<le> of_int n * u"
    using n0 u by simp
  ultimately have "\<bar>if x < 0 then - (of_int n * u) else of_int n * u\<bar> \<le> 2 ^ k"
    by simp
  moreover have "binary64 x = Fin (if x < 0 then - (of_int n * u) else of_int n * u)"
    by (simp only: alt E top simp_thms if_False)
  ultimately show ?thesis
    by blast
qed

lemma rnd_zero: "rnd ar 0 = Fin 0"
  by (cases ar) (simp_all add: binary64_def)

lemma rnd_idem: "rnd ar x = Fin v \<Longrightarrow> rnd ar v = Fin v"
  by (cases ar) (simp_all add: binary64_idem)

lemma rnd_bounded:
  assumes "\<bar>x\<bar> \<le> 2 ^ k" "k \<le> 1023"
  shows "\<exists>v. rnd ar x = Fin v \<and> \<bar>v\<bar> \<le> 2 ^ k"
  using assms by (cases ar) (simp_all add: binary64_bounded)

section \<open>The range of the dates\<close>

lemma div_succ_int:
  fixes x d :: int
  assumes "0 < d"
  shows "(x + 1) div d = x div d + (if d dvd x + 1 then 1 else 0)"
proof -
  define q r where "q = x div d" and "r = x mod d"
  have r: "0 \<le> r" "r < d"
    using assms by (simp_all add: r_def)
  have x: "x + 1 = (r + 1) + q * d"
    by (simp add: q_def r_def)
  have dv: "(x + 1) div d = q + (r + 1) div d"
    unfolding x using assms by simp
  have dvd: "d dvd x + 1 \<longleftrightarrow> d dvd r + 1"
    unfolding x by simp
  show ?thesis
  proof (cases "r + 1 = d")
    case True
    then show ?thesis
      using dv dvd assms by (simp add: q_def)
  next
    case False
    then have lt: "r + 1 < d"
      using r by simp
    then have "(r + 1) div d = 0"
      using r by (simp add: div_pos_pos_trivial)
    moreover have "\<not> d dvd r + 1"
      using lt r by (simp add: zdvd_not_zless)
    ultimately show ?thesis
      using dv dvd by (simp add: q_def)
  qed
qed

lemma dvd_shift:
  "(4::int) dvd y - 1968 \<longleftrightarrow> 4 dvd y" "(100::int) dvd y - 1900 \<longleftrightarrow> 100 dvd y"
  "(400::int) dvd y - 1600 \<longleftrightarrow> 400 dvd y"
proof -
  have "y - 1968 = y - 4 * 492" "y - 1900 = y - 100 * 19" "y - 1600 = y - 400 * 4"
    by simp_all
  then show "(4::int) dvd y - 1968 \<longleftrightarrow> 4 dvd y" "(100::int) dvd y - 1900 \<longleftrightarrow> 100 dvd y"
    "(400::int) dvd y - 1600 \<longleftrightarrow> 400 dvd y"
    by (simp_all only: dvd_diff_left_iff dvd_triv_left)
qed

lemma isLeapYear_dvd: "isLeapYear y \<longleftrightarrow> 4 dvd y \<and> (\<not> 100 dvd y \<or> 400 dvd y)"
  by (simp add: isLeapYear_def mod_eq_0_iff_dvd)

lemma DayFromYear_next:
  "DayFromYear (y + 1) = DayFromYear y + 365 + (if isLeapYear y then 1 else 0)"
proof -
  have e: "y + 1 - 1969 = (y - 1969) + 1" "y + 1 - 1901 = (y - 1901) + 1"
    "y + 1 - 1601 = (y - 1601) + 1" "y + 1 - 1970 = (y - 1970) + 1"
    by simp_all
  have f: "y - 1969 + 1 = y - 1968" "y - 1901 + 1 = y - 1900" "y - 1601 + 1 = y - 1600"
    by simp_all
  have a: "(y - 1969 + 1) div 4 = (y - 1969) div 4 + (if 4 dvd y then 1 else 0)"
    using div_succ_int [of 4 "y - 1969"] by (simp add: f dvd_shift)
  have b: "(y - 1901 + 1) div 100 = (y - 1901) div 100 + (if 100 dvd y then 1 else 0)"
    using div_succ_int [of 100 "y - 1901"] by (simp add: f dvd_shift)
  have c: "(y - 1601 + 1) div 400 = (y - 1601) div 400 + (if 400 dvd y then 1 else 0)"
    using div_succ_int [of 400 "y - 1601"] by (simp add: f dvd_shift)
  have d: "(100::int) dvd y" if "400 dvd y"
    using that by (rule dvd_trans [rotated]) simp
  have d': "(4::int) dvd y" if "100 dvd y"
    using that by (rule dvd_trans [rotated]) simp
  have step: "DayFromYear (y + 1) = DayFromYear y + 365 + (if 4 dvd y then 1 else 0)
      - (if 100 dvd y then 1 else 0) + (if 400 dvd y then 1 else 0)"
    unfolding DayFromYear_def e a b c by (simp add: algebra_simps)
  consider "400 dvd y" | "\<not> 400 dvd y" "100 dvd y" | "\<not> 100 dvd y" "4 dvd y" | "\<not> 4 dvd y"
    by blast
  then show ?thesis
  proof cases
    case 1
    then show ?thesis using d d' by (simp add: step isLeapYear_dvd)
  next
    case 2
    then show ?thesis using d' by (simp add: step isLeapYear_dvd)
  next
    case 3
    then show ?thesis using d by (auto simp add: step isLeapYear_dvd)
  next
    case 4
    then show ?thesis using d d' by (auto simp add: step isLeapYear_dvd)
  qed
qed

lemma days_before_month_Suc:
  "days_before_month y (Suc m) = days_before_month y m + DaysInMonth y (int m)"
  by (simp add: days_before_month_def)

lemma days_before_month_11:
  "days_before_month y 11 + 31 = 365 + (if isLeapYear y then 1 else 0)"
  by (simp add: days_before_month_def DaysInMonth_def upt_rec)

lemma MakeDay_nat:
  "MakeDay 2025 (int k) 0 =
   DayFromYear (2025 + int (k div 12)) + days_before_month (2025 + int (k div 12)) (k mod 12) - 1"
proof -
  have "int k div 12 = int (k div 12)" "int k mod 12 = int (k mod 12)"
    by (simp_all add: zdiv_int zmod_int)
  then show ?thesis
    by (simp only: MakeDay_def Let_def nat_int)
qed

text \<open>From one month index to the next the day number grows by the length of the month.\<close>

lemma MakeDay_Suc:
  "MakeDay 2025 (int (Suc k)) 0 =
   MakeDay 2025 (int k) 0 + DaysInMonth (2025 + int (k div 12)) (int (k mod 12))"
proof (cases "k mod 12 = 11")
  case True
  then have s: "Suc k div 12 = Suc (k div 12)" "Suc k mod 12 = 0"
    by (simp_all add: div_Suc mod_Suc)
  have y: "2025 + int (Suc (k div 12)) = (2025 + int (k div 12)) + 1"
    by simp
  have m: "DaysInMonth (2025 + int (k div 12)) 11 = 31"
    by (simp add: DaysInMonth_def)
  show ?thesis
    unfolding MakeDay_nat s y DayFromYear_next
    using days_before_month_11 [of "2025 + int (k div 12)"] True
    by (simp add: days_before_month_def m)
next
  case False
  then have s: "Suc k div 12 = k div 12" "Suc k mod 12 = Suc (k mod 12)"
    by (simp_all add: div_Suc mod_Suc)
  show ?thesis
    unfolding MakeDay_nat s days_before_month_Suc by simp
qed

lemma MakeDay_mono: "k \<le> l \<Longrightarrow> MakeDay 2025 (int k) 0 \<le> MakeDay 2025 (int l) 0"
proof (rule lift_Suc_mono_le [of "\<lambda>k. MakeDay 2025 (int k) 0"])
  fix n
  have "28 \<le> DaysInMonth (2025 + int (n div 12)) (int (n mod 12))"
    by (simp add: DaysInMonth_def)
  then show "MakeDay 2025 (int n) 0 \<le> MakeDay 2025 (int (Suc n)) 0"
    unfolding MakeDay_Suc by linarith
qed

lemma MakeDay_first: "MakeDay 2025 (int 1) 0 = 20119"
  by (simp add: MakeDay_def DayFromYear_def days_before_month_def DaysInMonth_def
      isLeapYear_def upt_rec)

lemma MakeDay_last_valid: "MakeDay 2025 (int 3284828) 0 = 99999987"
  by (simp add: MakeDay_def DayFromYear_def days_before_month_def DaysInMonth_def
      isLeapYear_def upt_rec)

lemma MakeDay_first_invalid: "MakeDay 2025 (int 3284829) 0 = 100000017"
  by (simp add: MakeDay_def DayFromYear_def days_before_month_def DaysInMonth_def
      isLeapYear_def upt_rec)

text \<open>
  The date of the loop is in range exactly for the month indices below 3284828, and its
  day number is never \<open>10\<^sup>8\<close>.
\<close>

lemma Date_range:
  "\<bar>MakeDay 2025 (int i + 1) 0\<bar> < 100000000 \<longleftrightarrow> i < 3284828"
  "MakeDay 2025 (int i + 1) 0 \<noteq> 100000000"
proof -
  have suc: "int i + 1 = int (Suc i)"
    by simp
  have "MakeDay 2025 (int 1) 0 \<le> MakeDay 2025 (int (Suc i)) 0"
    by (rule MakeDay_mono) simp
  then have low: "20119 \<le> MakeDay 2025 (int (Suc i)) 0"
    by (simp only: MakeDay_first)
  have small: "MakeDay 2025 (int (Suc i)) 0 \<le> 99999987" if "i < 3284828"
  proof -
    have "MakeDay 2025 (int (Suc i)) 0 \<le> MakeDay 2025 (int 3284828) 0"
      by (rule MakeDay_mono) (use that in simp)
    then show ?thesis
      by (simp only: MakeDay_last_valid)
  qed
  have large: "100000017 \<le> MakeDay 2025 (int (Suc i)) 0" if "\<not> i < 3284828"
  proof -
    have "MakeDay 2025 (int 3284829) 0 \<le> MakeDay 2025 (int (Suc i)) 0"
      by (rule MakeDay_mono) (use that in simp)
    then show ?thesis
      by (simp only: MakeDay_first_invalid)
  qed
  show "\<bar>MakeDay 2025 (int i + 1) 0\<bar> < 100000000 \<longleftrightarrow> i < 3284828"
  proof (cases "i < 3284828")
    case True
    then show ?thesis
      unfolding suc using low small [OF True] by linarith
  next
    case False
    then show ?thesis
      unfolding suc using large [OF False] by linarith
  qed
  show "MakeDay 2025 (int i + 1) 0 \<noteq> 100000000"
  proof (cases "i < 3284828")
    case True
    then show ?thesis
      unfolding suc using small [OF True] by linarith
  next
    case False
    then show ?thesis
      unfolding suc using large [OF False] by linarith
  qed
qed

text \<open>
  Within the range of dates the day count of the loop is that of a calendar month, in the
  year the index reaches; beyond the range it is \<^verbatim>\<open>NaN\<close>.
\<close>

lemma daysInMonth_calendar:
  "i < 3284828 \<Longrightarrow>
   daysInMonth i = Fin (of_int (DaysInMonth (2025 + int (i div 12)) (int (i mod 12))))"
  by (simp add: daysInMonth_def Date_day_zero_def Date_range first_of_month_def
      int_succ_div12 int_succ_mod12 DaysInMonth_def)

lemma daysInMonth_invalid: "3284828 \<le> i \<Longrightarrow> daysInMonth i = NaN"
  by (simp add: daysInMonth_def Date_day_zero_def Date_range)

lemma DaysInMonth_first_years:
  assumes "i < 36"
  shows "DaysInMonth (2025 + int (i div 12)) k = DaysInMonth 2025 k"
proof -
  have "i div 12 < 3"
    using assms by simp
  then have "i div 12 = 0 \<or> i div 12 = 1 \<or> i div 12 = 2"
    by linarith
  then show ?thesis
    by (auto simp add: DaysInMonth_def isLeapYear_def)
qed

section \<open>Values of the model on the examples\<close>

lemma usageBasis_100: "usageBasis_of Binary64 ''100'' = [Fin 100]"
  by code_simp

lemma usageBasis_initial:
  "usageBasis_of Binary64 ''200, 180, 220, 300, 350, 400, 420, 380, 300, 250, 200, 180'' =
   [Fin 200, Fin 180, Fin 220, Fin 300, Fin 350, Fin 400, Fin 420, Fin 380, Fin 300,
    Fin 250, Fin 200, Fin 180]"
  by code_simp

lemma Number_abc: "Number Binary64 ''abc'' = NaN"
  by code_simp

lemma usageBasis_unparseable: "usageBasis_of Binary64 ''abc,x1'' = []"
  by code_simp

section \<open>The seasonal band schedule\<close>

text \<open>
  C3. For every current band and every current month from 1 to 12, the schedule that
  \<^verbatim>\<open>calculateTariffBands\<close> stores has exactly three bands. The first is the current band
  unchanged under the label "Current Month". For \<open>i\<close> in \<open>{1, 2}\<close>, each of the three
  rates of band \<open>i\<close> is \<open>round2 ((rate + 0.5 * i) * m)\<close>, where \<open>m\<close> is 1.10 when the month
  \<open>((currentMonth - 1 + 3 * i) mod 12) + 1\<close> is at least 10 or at most 3 and 0.95 otherwise;
  band 1 is labelled "Next Quarter" and band 2 "Following Quarter". The formula is
  evaluated in the arithmetic of the program: every operation rounds to a double, and so
  do the two multipliers. The statement holds in the exact arithmetic as well.
\<close>

theorem calculateTariffBands_schedule:
  assumes "1 \<le> currentMonth s" and "currentMonth s \<le> 12"
  shows "length (tariffQuarters (calculateTariffBands ar s)) = 3
    \<and> tariffQuarters (calculateTariffBands ar s) ! 0 =
        \<lparr>peakUnitRate = peakUnitRate (currentTariffBand s),
         standingCharge = standingCharge (currentTariffBand s),
         offPeakUnitRate = offPeakUnitRate (currentTariffBand s),
         name = ''Current Month''\<rparr>
    \<and> name (tariffQuarters (calculateTariffBands ar s) ! 1) = ''Next Quarter''
    \<and> name (tariffQuarters (calculateTariffBands ar s) ! 2) = ''Following Quarter''
    \<and> (\<forall>i \<in> {1, 2}.
          let fm = ((currentMonth s - 1 + 3 * int i) mod 12) + 1;
              m = (if fm \<ge> 10 \<or> fm \<le> 3 then rnd ar (11 / 10) else rnd ar (95 / 100));
              b = tariffQuarters (calculateTariffBands ar s) ! i
          in peakUnitRate b =
               round2 ar (num_mul ar
                 (num_add ar (peakUnitRate (currentTariffBand s))
                    (num_mul ar (Fin (1 / 2)) (Fin (of_nat i)))) m)
           \<and> standingCharge b =
               round2 ar (num_mul ar
                 (num_add ar (standingCharge (currentTariffBand s))
                    (num_mul ar (Fin (1 / 2)) (Fin (of_nat i)))) m)
           \<and> offPeakUnitRate b =
               round2 ar (num_mul ar
                 (num_add ar (offPeakUnitRate (currentTariffBand s))
                    (num_mul ar (Fin (1 / 2)) (Fin (of_nat i)))) m))"
proof -
  have fm: "futureMonth (currentMonth s) k = ((currentMonth s - 1 + 3 * k) mod 12) + 1"
    if "0 \<le> k" for k
    using assms that by (simp add: futureMonth_def js_rem_nonneg mult.commute)
  have fr: "future_rate ar r (Fin (1 / 2)) k m =
      round2 ar (num_mul ar (num_add ar r (num_mul ar (Fin (1 / 2)) (Fin (of_int k)))) m)"
    for r k m
    by (simp only: future_rate_def round2_def)
  have bands: "tariffQuarters (calculateTariffBands ar s) =
    [\<lparr>peakUnitRate = peakUnitRate (currentTariffBand s),
      standingCharge = standingCharge (currentTariffBand s),
      offPeakUnitRate = offPeakUnitRate (currentTariffBand s),
      name = ''Current Month''\<rparr>,
     future_band ar (currentTariffBand s) (currentMonth s) 1,
     future_band ar (currentTariffBand s) (currentMonth s) 2]"
    by (simp add: calculateTariffBands_def tariffBands_def)
  have b1: "future_band ar (currentTariffBand s) (currentMonth s) 1 =
    \<lparr>peakUnitRate = future_rate ar (peakUnitRate (currentTariffBand s)) (Fin (1 / 2)) 1
        (multiplier ar (currentMonth s) 1),
     standingCharge = future_rate ar (standingCharge (currentTariffBand s)) (Fin (1 / 2)) 1
        (multiplier ar (currentMonth s) 1),
     offPeakUnitRate = future_rate ar (offPeakUnitRate (currentTariffBand s)) (Fin (1 / 2)) 1
        (multiplier ar (currentMonth s) 1),
     name = ''Next Quarter''\<rparr>"
    by (simp add: future_band_def baseIncrease_def)
  have b2: "future_band ar (currentTariffBand s) (currentMonth s) 2 =
    \<lparr>peakUnitRate = future_rate ar (peakUnitRate (currentTariffBand s)) (Fin (1 / 2)) 2
        (multiplier ar (currentMonth s) 2),
     standingCharge = future_rate ar (standingCharge (currentTariffBand s)) (Fin (1 / 2)) 2
        (multiplier ar (currentMonth s) 2),
     offPeakUnitRate = future_rate ar (offPeakUnitRate (currentTariffBand s)) (Fin (1 / 2)) 2
        (multiplier ar (currentMonth s) 2),
     name = ''Following Quarter''\<rparr>"
    by (simp add: future_band_def baseIncrease_def)
  have m: "multiplier ar (currentMonth s) k =
      (if ((currentMonth s - 1 + 3 * k) mod 12) + 1 \<ge> 10
          \<or> ((currentMonth s - 1 + 3 * k) mod 12) + 1 \<le> 3
       then rnd ar (11 / 10) else rnd ar (95 / 100))" if "0 \<le> k" for k
    by (simp only: multiplier_def fm [OF that] isWinterMonth_def
        seasonalMultiplier_winter_def seasonalMultiplier_summer_def)
  have m1: "multiplier ar (currentMonth s) 1 =
      (if ((currentMonth s - 1 + 3 * int 1) mod 12) + 1 \<ge> 10
          \<or> ((currentMonth s - 1 + 3 * int 1) mod 12) + 1 \<le> 3
       then rnd ar (11 / 10) else rnd ar (95 / 100))"
    using m [of 1] by simp
  have m2: "multiplier ar (currentMonth s) 2 =
      (if ((currentMonth s - 1 + 3 * int 2) mod 12) + 1 \<ge> 10
          \<or> ((currentMonth s - 1 + 3 * int 2) mod 12) + 1 \<le> 3
       then rnd ar (11 / 10) else rnd ar (95 / 100))"
    using m [of 2] by simp
  have k: "Fin (of_int 1) = Fin (of_nat 1)" "Fin (of_int 2) = Fin (of_nat 2)"
    by simp_all
  show ?thesis
    unfolding bands b1 b2 fr k m1 m2 Let_def by simp
qed

theorem calculateTariffBands_schedule_witness:
  "1 \<le> currentMonth (initial_state 4) \<and> currentMonth (initial_state 4) \<le> 12
   \<and> tariffQuarters (calculateTariffBands Binary64 (initial_state 4)) =
       [\<lparr>peakUnitRate = Fin 27, standingCharge = Fin 55, offPeakUnitRate = Fin 15,
         name = ''Current Month''\<rparr>,
        \<lparr>peakUnitRate = Fin (7354941141449441 / 281474976710656),
         standingCharge = Fin (1854920096523223 / 35184372088832),
         offPeakUnitRate = Fin (4146126406947963 / 281474976710656),
         name = ''Next Quarter''\<rparr>,
        \<lparr>peakUnitRate = Fin (8669429282688205 / 281474976710656),
         standingCharge = Fin (8669429282688205 / 140737488355328),
         offPeakUnitRate = Fin (2476979795053773 / 140737488355328),
         name = ''Following Quarter''\<rparr>]
   \<and> binary64 (2613 / 100) = Fin (7354941141449441 / 281474976710656)
   \<and> binary64 (5272 / 100) = Fin (1854920096523223 / 35184372088832)
   \<and> binary64 (1473 / 100) = Fin (4146126406947963 / 281474976710656)
   \<and> binary64 (3080 / 100) = Fin (8669429282688205 / 281474976710656)
   \<and> binary64 (6160 / 100) = Fin (8669429282688205 / 140737488355328)
   \<and> binary64 (1760 / 100) = Fin (2476979795053773 / 140737488355328)"
proof -
  define st where "st = initial_state 4"
  let ?tq = "tariffQuarters (calculateTariffBands Binary64 st)"
  have months: "1 \<le> currentMonth st" "currentMonth st \<le> 12"
    by (simp_all add: st_def initial_state_def)
  note sched = calculateTariffBands_schedule [OF months, of Binary64]
  have len: "length ?tq = 3"
    using sched by (rule conjunct1)
  have cb: "peakUnitRate (currentTariffBand st) = Fin 27"
    "standingCharge (currentTariffBand st) = Fin 55"
    "offPeakUnitRate (currentTariffBand st) = Fin 15"
    by (simp_all add: st_def initial_state_def)
  have b0: "?tq ! 0 = \<lparr>peakUnitRate = Fin 27, standingCharge = Fin 55,
      offPeakUnitRate = Fin 15, name = ''Current Month''\<rparr>"
    using sched [THEN conjunct2, THEN conjunct1] by (simp only: cb)
  have n1: "name (?tq ! 1) = ''Next Quarter''"
    using sched by (elim conjE)
  have n2: "name (?tq ! 2) = ''Following Quarter''"
    using sched by (elim conjE)
  have i1: "(1::nat) \<in> {1, 2}" and i2: "(2::nat) \<in> {1, 2}"
    by simp_all
  have fm1: "(currentMonth st - 1 + 3 * int 1) mod 12 + 1 = 7"
    and fm2: "(currentMonth st - 1 + 3 * int 2) mod 12 + 1 = 10"
    by (simp_all add: st_def initial_state_def)
  have season: "((10::int) \<le> 7 \<or> (7::int) \<le> 3) = False"
    "((10::int) \<le> 10 \<or> (10::int) \<le> 3) = True"
    by simp_all
  have v1: "round2 Binary64 (num_mul Binary64
        (num_add Binary64 (Fin 27) (num_mul Binary64 (Fin (1 / 2)) (Fin (of_nat 1))))
        (rnd Binary64 (95 / 100))) = Fin (7354941141449441 / 281474976710656)"
    by code_simp
  have v2: "round2 Binary64 (num_mul Binary64
        (num_add Binary64 (Fin 55) (num_mul Binary64 (Fin (1 / 2)) (Fin (of_nat 1))))
        (rnd Binary64 (95 / 100))) = Fin (1854920096523223 / 35184372088832)"
    by code_simp
  have v3: "round2 Binary64 (num_mul Binary64
        (num_add Binary64 (Fin 15) (num_mul Binary64 (Fin (1 / 2)) (Fin (of_nat 1))))
        (rnd Binary64 (95 / 100))) = Fin (4146126406947963 / 281474976710656)"
    by code_simp
  have w1: "round2 Binary64 (num_mul Binary64
        (num_add Binary64 (Fin 27) (num_mul Binary64 (Fin (1 / 2)) (Fin (of_nat 2))))
        (rnd Binary64 (11 / 10))) = Fin (8669429282688205 / 281474976710656)"
    by code_simp
  have w2: "round2 Binary64 (num_mul Binary64
        (num_add Binary64 (Fin 55) (num_mul Binary64 (Fin (1 / 2)) (Fin (of_nat 2))))
        (rnd Binary64 (11 / 10))) = Fin (8669429282688205 / 140737488355328)"
    by code_simp
  have w3: "round2 Binary64 (num_mul Binary64
        (num_add Binary64 (Fin 15) (num_mul Binary64 (Fin (1 / 2)) (Fin (of_nat 2))))
        (rnd Binary64 (11 / 10))) = Fin (2476979795053773 / 140737488355328)"
    by code_simp
  note all = sched [THEN conjunct2, THEN conjunct2, THEN conjunct2, THEN conjunct2]
  note p1 = all [THEN bspec, OF i1, unfolded Let_def fm1 season if_False cb v1 v2 v3]
  note p2 = all [THEN bspec, OF i2, unfolded Let_def fm2 season if_True cb w1 w2 w3]
  have b1: "?tq ! 1 = \<lparr>peakUnitRate = Fin (7354941141449441 / 281474976710656),
         standingCharge = Fin (1854920096523223 / 35184372088832),
         offPeakUnitRate = Fin (4146126406947963 / 281474976710656),
         name = ''Next Quarter''\<rparr>"
    by (rule band.equality) (use p1 n1 in simp_all)
  have b2: "?tq ! 2 = \<lparr>peakUnitRate = Fin (8669429282688205 / 281474976710656),
         standingCharge = Fin (8669429282688205 / 140737488355328),
         offPeakUnitRate = Fin (2476979795053773 / 140737488355328),
         name = ''Following Quarter''\<rparr>"
    by (rule band.equality) (use p2 n2 in simp_all)
  have "?tq = [?tq ! 0, ?tq ! 1, ?tq ! 2]"
    using len by (auto simp: list_eq_iff_nth_eq nth_Cons' numeral_eq_Suc less_Suc_eq)
  then have tq: "?tq = [\<lparr>peakUnitRate = Fin 27, standingCharge = Fin 55,
      offPeakUnitRate = Fin 15, name = ''Current Month''\<rparr>,
    \<lparr>peakUnitRate = Fin (7354941141449441 / 281474976710656),
         standingCharge = Fin (1854920096523223 / 35184372088832),
         offPeakUnitRate = Fin (4146126406947963 / 281474976710656),
         name = ''Next Quarter''\<rparr>,
    \<lparr>peakUnitRate = Fin (8669429282688205 / 281474976710656),
         standingCharge = Fin (8669429282688205 / 140737488355328),
         offPeakUnitRate = Fin (2476979795053773 / 140737488355328),
         name = ''Following Quarter''\<rparr>]"
    by (simp only: b0 b1 b2)
  have d: "binary64 (2613 / 100) = Fin (7354941141449441 / 281474976710656)"
    "binary64 (5272 / 100) = Fin (1854920096523223 / 35184372088832)"
    "binary64 (1473 / 100) = Fin (4146126406947963 / 281474976710656)"
    "binary64 (3080 / 100) = Fin (8669429282688205 / 281474976710656)"
    "binary64 (6160 / 100) = Fin (8669429282688205 / 140737488355328)"
    "binary64 (1760 / 100) = Fin (2476979795053773 / 140737488355328)"
    by code_simp+
  show ?thesis
    using months tq d unfolding st_def by (intro conjI)
qed

section \<open>Length and cyclic reuse\<close>

text \<open>
  C2. For every usage text with a non-empty basis and every number of months \<open>N\<close>, a
  projection that runs (fixed mode, or three bands) stores usage and cost lists of length
  exactly \<open>N\<close>, and the usage of month \<open>i\<close> is the basis entry at \<open>i mod length basis\<close>,
  for every \<open>i < N\<close>. This holds in either arithmetic.
\<close>

theorem calculateProjection_length_cyclic:
  assumes "ub = usageBasis_of ar (monthlyUsageProjectionBasis s)" and "ub \<noteq> []"
    and "isFixedCharge s \<or> 3 \<le> length (tariffQuarters s)"
  shows "length (projectedUsage (calculateProjection ar s)) = nMonths s
    \<and> length (projectedCosts (calculateProjection ar s)) = nMonths s
    \<and> (\<forall>i < nMonths s. projectedUsage (calculateProjection ar s) ! i = ub ! (i mod length ub))"
  by (simp add: calculateProjection_ok [OF assms])

theorem calculateProjection_length_cyclic_witness:
  "usageBasis_of Binary64 (monthlyUsageProjectionBasis ((initial_state 7)\<lparr>nMonths := 14\<rparr>)) \<noteq> []
   \<and> (isFixedCharge ((initial_state 7)\<lparr>nMonths := 14\<rparr>)
        \<or> 3 \<le> length (tariffQuarters ((initial_state 7)\<lparr>nMonths := 14\<rparr>)))
   \<and> length (projectedUsage (calculateProjection Binary64 ((initial_state 7)\<lparr>nMonths := 14\<rparr>)))
       = 14
   \<and> length (projectedCosts (calculateProjection Binary64 ((initial_state 7)\<lparr>nMonths := 14\<rparr>)))
       = 14
   \<and> projectedUsage (calculateProjection Binary64 ((initial_state 7)\<lparr>nMonths := 14\<rparr>)) ! 13
       = Fin 180"
proof -
  let ?s = "(initial_state 7)\<lparr>nMonths := 14\<rparr>"
  let ?ub = "usageBasis_of Binary64 (monthlyUsageProjectionBasis ?s)"
  have ub: "?ub = [Fin 200, Fin 180, Fin 220, Fin 300, Fin 350, Fin 400, Fin 420, Fin 380,
      Fin 300, Fin 250, Fin 200, Fin 180]"
    by (simp add: initial_state_def usageBasis_initial)
  have h: "?ub \<noteq> []" "isFixedCharge ?s \<or> 3 \<le> length (tariffQuarters ?s)"
    using ub by (simp_all add: initial_state_def)
  have n: "nMonths ?s = 14"
    by simp
  note c = calculateProjection_length_cyclic [OF refl h]
  have "projectedUsage (calculateProjection Binary64 ?s) ! 13 = ?ub ! (13 mod length ?ub)"
    using c n by simp
  also have "\<dots> = Fin 180"
    using ub by simp
  finally show ?thesis
    using c h n by simp
qed

section \<open>The band of a month\<close>

text \<open>
  C4. In band mode with three bands, the band applied to month \<open>i\<close> is the first band
  when \<open>0 \<le> i \<le> 2\<close>, the second when \<open>3 \<le> i \<le> 5\<close>, the third when \<open>6 \<le> i \<le> 8\<close>, and
  again the third for every \<open>i \<ge> 9\<close>. This holds in either arithmetic.
\<close>

theorem band_of_month:
  assumes "\<not> isFixedCharge s" and "3 \<le> length (tariffQuarters s)"
  shows "(i \<le> 2 \<longrightarrow> band_applied ar s ub i (tariffQuarters s ! 0))
    \<and> (3 \<le> i \<and> i \<le> 5 \<longrightarrow> band_applied ar s ub i (tariffQuarters s ! 1))
    \<and> (6 \<le> i \<and> i \<le> 8 \<longrightarrow> band_applied ar s ub i (tariffQuarters s ! 2))
    \<and> (9 \<le> i \<longrightarrow> band_applied ar s ub i (tariffQuarters s ! 2))"
  using assms
  by (auto simp add: band_applied_def monthCost_def Let_def applicableTariff_three)

theorem band_of_month_witness:
  "\<not> isFixedCharge (initial_state 7) \<and> 3 \<le> length (tariffQuarters (initial_state 7))
   \<and> applicableTariff (tariffQuarters (initial_state 7)) 1 =
       Some \<lparr>peakUnitRate = Fin 27, standingCharge = Fin 55, offPeakUnitRate = Fin 15,
             name = ''Current Month''\<rparr>
   \<and> applicableTariff (tariffQuarters (initial_state 7)) 4 =
       Some \<lparr>peakUnitRate = Fin (55 / 2), standingCharge = Fin (111 / 2),
             offPeakUnitRate = Fin (31 / 2), name = ''Next Quarter''\<rparr>
   \<and> applicableTariff (tariffQuarters (initial_state 7)) 7 =
       Some \<lparr>peakUnitRate = Fin 28, standingCharge = Fin 56, offPeakUnitRate = Fin 16,
             name = ''Following Quarter''\<rparr>
   \<and> applicableTariff (tariffQuarters (initial_state 7)) 20 =
       Some \<lparr>peakUnitRate = Fin 28, standingCharge = Fin 56, offPeakUnitRate = Fin 16,
             name = ''Following Quarter''\<rparr>"
proof -
  have h: "\<not> isFixedCharge (initial_state 7)" "3 \<le> length (tariffQuarters (initial_state 7))"
    by (simp_all add: initial_state_def)
  have tq: "tariffQuarters (initial_state 7) ! 0 =
      \<lparr>peakUnitRate = Fin 27, standingCharge = Fin 55, offPeakUnitRate = Fin 15,
       name = ''Current Month''\<rparr>"
    "tariffQuarters (initial_state 7) ! 1 =
      \<lparr>peakUnitRate = Fin (55 / 2), standingCharge = Fin (111 / 2),
       offPeakUnitRate = Fin (31 / 2), name = ''Next Quarter''\<rparr>"
    "tariffQuarters (initial_state 7) ! 2 =
      \<lparr>peakUnitRate = Fin 28, standingCharge = Fin 56, offPeakUnitRate = Fin 16,
       name = ''Following Quarter''\<rparr>"
    by (simp_all add: initial_state_def)
  let ?ub = "usageBasis_of Binary64 (monthlyUsageProjectionBasis (initial_state 7))"
  let ?tq = "tariffQuarters (initial_state 7)"
  have b1: "applicableTariff ?tq 1 = Some (?tq ! 0)"
    using band_of_month [OF h, of 1 Binary64 ?ub] by (simp add: band_applied_def)
  have b4: "applicableTariff ?tq 4 = Some (?tq ! 1)"
    using band_of_month [OF h, of 4 Binary64 ?ub] by (simp add: band_applied_def)
  have b7: "applicableTariff ?tq 7 = Some (?tq ! 2)"
    using band_of_month [OF h, of 7 Binary64 ?ub] by (simp add: band_applied_def)
  have b20: "applicableTariff ?tq 20 = Some (?tq ! 2)"
    using band_of_month [OF h, of 20 Binary64 ?ub] by (simp add: band_applied_def)
  show ?thesis
    by (simp only: tq [symmetric] h b1 b4 b7 b20 simp_thms)
qed

section \<open>The days of a month\<close>

text \<open>
  C5 as stated fails at month index 37. It is a February position, and the loop uses 29
  days for it: the month index carries into the year, and index 37 falls in February
  2028. The reference year 2025 gives 28 days for that position.
\<close>

theorem daysInMonth_february_2028:
  "(37::nat) mod 12 = 1 \<and> daysInMonth 37 = Fin 29 \<and> DaysInMonth 2025 (int (37 mod 12)) = 28"
  by (simp add: daysInMonth_calendar DaysInMonth_def isLeapYear_def)

text \<open>
  C5, amended. For every month index \<open>i\<close> below 3284828, the days-in-month value used for
  month \<open>i\<close> is the day count of calendar month \<open>(i mod 12) + 1\<close> in the year
  \<open>2025 + i div 12\<close>, independent of the configured current month. For \<open>i < 36\<close> (the years
  2025 to 2027) it is the count of the non-leap reference year 2025; a February position
  (\<open>i mod 12 = 1\<close>) uses 28 days unless its year is a leap year, and 29 days then. From
  index 3284828 on the date is outside the range of \<^verbatim>\<open>Date\<close> and the value is \<^verbatim>\<open>NaN\<close>.
\<close>

theorem daysInMonth_by_year:
  "(i < 3284828 \<longrightarrow>
      daysInMonth i = Fin (of_int (DaysInMonth (2025 + int (i div 12)) (int (i mod 12)))))
   \<and> (i < 36 \<longrightarrow> daysInMonth i = Fin (of_int (DaysInMonth 2025 (int (i mod 12)))))
   \<and> (i < 3284828 \<and> i mod 12 = 1 \<longrightarrow>
        daysInMonth i = (if isLeapYear (2025 + int (i div 12)) then Fin 29 else Fin 28))
   \<and> (3284828 \<le> i \<longrightarrow> daysInMonth i = NaN)
   \<and> calculateProjection ar (s\<lparr>currentMonth := m\<rparr>) =
       (calculateProjection ar s)\<lparr>currentMonth := m\<rparr>"
proof (intro conjI impI)
  show "daysInMonth i = Fin (of_int (DaysInMonth (2025 + int (i div 12)) (int (i mod 12))))"
    if "i < 3284828"
    using that by (rule daysInMonth_calendar)
  show "daysInMonth i = Fin (of_int (DaysInMonth 2025 (int (i mod 12))))" if "i < 36"
    using that by (simp add: daysInMonth_calendar DaysInMonth_first_years)
  show "daysInMonth i = (if isLeapYear (2025 + int (i div 12)) then Fin 29 else Fin 28)"
    if "i < 3284828 \<and> i mod 12 = 1"
    using that by (simp add: daysInMonth_calendar DaysInMonth_def)
  show "daysInMonth i = NaN" if "3284828 \<le> i"
    using that by (rule daysInMonth_invalid)
  show "calculateProjection ar (s\<lparr>currentMonth := m\<rparr>) =
      (calculateProjection ar s)\<lparr>currentMonth := m\<rparr>"
    by (rule calculateProjection_currentMonth)
qed

theorem daysInMonth_by_year_witness:
  "(13::nat) < 3284828 \<and> (13::nat) < 36 \<and> (13::nat) mod 12 = 1 \<and> daysInMonth 13 = Fin 28
   \<and> daysInMonth 13 = Fin (of_int (DaysInMonth 2025 (int (13 mod 12))))
   \<and> (3284828::nat) \<le> 3284828 \<and> daysInMonth 3284828 = NaN
   \<and> calculateProjection Binary64 ((initial_state 7)\<lparr>currentMonth := 3\<rparr>) =
       (calculateProjection Binary64 (initial_state 7))\<lparr>currentMonth := 3\<rparr>"
  using daysInMonth_by_year [where i = 13 and s = "initial_state 7" and m = 3 and ar = Binary64]
    daysInMonth_by_year [where i = 3284828]
  by (simp add: isLeapYear_def DaysInMonth_def)

section \<open>The split into peak and off-peak usage\<close>

text \<open>
  C8. Over exact rational arithmetic, for the finite usage \<open>u\<close> of a month, the peak usage
  is \<open>u * peakPercentage / 100\<close>, the off-peak usage is \<open>u * offPeakPercentage / 100\<close>, the
  two add up to \<open>u\<close>, and the derived off-peak percentage satisfies \<open>peakPercentage +
  offPeakPercentage = 100\<close>.
\<close>

theorem peak_offPeak_split:
  "num_add Exact (peakUsage Exact s (Fin u)) (offPeakUsage Exact s (Fin u)) = Fin u
   \<and> peakUsage Exact s (Fin u) = Fin (u * peakPercentage s / 100)
   \<and> offPeakUsage Exact s (Fin u) = Fin (u * offPeakPercentage s / 100)
   \<and> peakPercentage s + offPeakPercentage s = 100"
  by (simp add: peakUsage_def offPeakUsage_def offPeakPercentage_def field_simps)

theorem peak_offPeak_split_witness:
  "peakUsage Exact (initial_state 7) (Fin 200) = Fin 140
   \<and> offPeakUsage Exact (initial_state 7) (Fin 200) = Fin 60
   \<and> num_add Exact (peakUsage Exact (initial_state 7) (Fin 200))
        (offPeakUsage Exact (initial_state 7) (Fin 200)) = Fin 200
   \<and> offPeakPercentage (initial_state 7) = 30"
proof -
  have p: "peakPercentage (initial_state 7) = 70"
    by (simp add: initial_state_def)
  have "peakPercentage (initial_state 7) + offPeakPercentage (initial_state 7) = 100"
    using peak_offPeak_split [of "initial_state 7" 200] by blast
  then have o: "offPeakPercentage (initial_state 7) = 30"
    by (simp add: p)
  show ?thesis
    using peak_offPeak_split [of "initial_state 7" 200] by (simp add: p o)
qed

section \<open>Entries that are not numbers\<close>

text \<open>
  C6. The projection is a total function of the state: nothing is thrown to the caller.
  An entry of the usage text that does not convert to a number is dropped without an
  error of its own, wherever it stands in the text. The message for an empty basis is
  reported exactly when no entry is left after filtering, and then the usage and cost
  lists are empty and the total is 0; when an entry is left and the projection runs,
  no error is reported. This holds in either arithmetic.
\<close>

theorem calculateProjection_invalid_input:
  "(error (calculateProjection ar s) = Some ''Monthly Usage Projection Basis cannot be empty.''
      \<longleftrightarrow> usageBasis_of ar (monthlyUsageProjectionBasis s) = [])
   \<and> (usageBasis_of ar (monthlyUsageProjectionBasis s) = [] \<longrightarrow>
        projectedUsage (calculateProjection ar s) = []
        \<and> projectedCosts (calculateProjection ar s) = []
        \<and> totalProjectedCost (calculateProjection ar s) = Fin 0)
   \<and> (usageBasis_of ar (monthlyUsageProjectionBasis s) \<noteq> []
        \<and> (isFixedCharge s \<or> 3 \<le> length (tariffQuarters s)) \<longrightarrow>
        error (calculateProjection ar s) = None)
   \<and> (usageBasis_of ar text = []
        \<longleftrightarrow> list_all (\<lambda>w. isNaN (Number ar w)) (split_comma text))
   \<and> (CHR '','' \<notin> set w \<and> isNaN (Number ar w) \<longrightarrow>
        usageBasis_of ar (a @ '','' @ w @ '','' @ b) = usageBasis_of ar (a @ '','' @ b)
        \<and> usageBasis_of ar (w @ '','' @ b) = usageBasis_of ar b
        \<and> usageBasis_of ar (a @ '','' @ w) = usageBasis_of ar a)"
proof (intro conjI impI)
  show "error (calculateProjection ar s)
        = Some ''Monthly Usage Projection Basis cannot be empty.''
      \<longleftrightarrow> usageBasis_of ar (monthlyUsageProjectionBasis s) = []"
    by (rule error_empty_iff)
  show "usageBasis_of ar text = [] \<longleftrightarrow> list_all (\<lambda>w. isNaN (Number ar w)) (split_comma text)"
    by (auto simp add: usageBasis_of_def filter_empty_conv list_all_iff)
next
  assume e: "usageBasis_of ar (monthlyUsageProjectionBasis s) = []"
  show "projectedUsage (calculateProjection ar s) = []"
    and "projectedCosts (calculateProjection ar s) = []"
    and "totalProjectedCost (calculateProjection ar s) = Fin 0"
    by (simp_all add: calculateProjection_empty [OF e])
next
  assume "usageBasis_of ar (monthlyUsageProjectionBasis s) \<noteq> []
        \<and> (isFixedCharge s \<or> 3 \<le> length (tariffQuarters s))"
  then show "error (calculateProjection ar s) = None"
    by (simp add: calculateProjection_ok [OF refl])
next
  assume "CHR '','' \<notin> set w \<and> isNaN (Number ar w)"
  then have w: "usageBasis_of ar w = []"
    by (simp add: usageBasis_of_entry)
  show "usageBasis_of ar (a @ '','' @ w @ '','' @ b) = usageBasis_of ar (a @ '','' @ b)"
    and "usageBasis_of ar (w @ '','' @ b) = usageBasis_of ar b"
    and "usageBasis_of ar (a @ '','' @ w) = usageBasis_of ar a"
    by (simp_all add: usageBasis_of_append w)
qed

theorem calculateProjection_invalid_input_witness:
  "usageBasis_of Binary64 (monthlyUsageProjectionBasis
      ((initial_state 7)\<lparr>monthlyUsageProjectionBasis := ''abc,x1''\<rparr>)) = []
   \<and> error (calculateProjection Binary64
        ((initial_state 7)\<lparr>monthlyUsageProjectionBasis := ''abc,x1''\<rparr>))
       = Some ''Monthly Usage Projection Basis cannot be empty.''
   \<and> projectedUsage (calculateProjection Binary64
        ((initial_state 7)\<lparr>monthlyUsageProjectionBasis := ''abc,x1''\<rparr>)) = []
   \<and> projectedCosts (calculateProjection Binary64
        ((initial_state 7)\<lparr>monthlyUsageProjectionBasis := ''abc,x1''\<rparr>)) = []
   \<and> totalProjectedCost (calculateProjection Binary64
        ((initial_state 7)\<lparr>monthlyUsageProjectionBasis := ''abc,x1''\<rparr>)) = Fin 0
   \<and> CHR '','' \<notin> set ''abc'' \<and> isNaN (Number Binary64 ''abc'')
   \<and> usageBasis_of Binary64 (''200'' @ '','' @ ''abc'' @ '','' @ ''180'')
       = usageBasis_of Binary64 (''200'' @ '','' @ ''180'')"
proof -
  define st where "st = (initial_state 7)\<lparr>monthlyUsageProjectionBasis := ''abc,x1''\<rparr>"
  have e: "usageBasis_of Binary64 (monthlyUsageProjectionBasis st) = []"
    by (simp add: st_def usageBasis_unparseable)
  have w: "CHR '','' \<notin> set ''abc''" "isNaN (Number Binary64 ''abc'')"
    by (simp_all add: Number_abc)
  note t = calculateProjection_invalid_input
    [where ar = Binary64 and s = st and w = "''abc''" and a = "''200''" and b = "''180''"]
  have "error (calculateProjection Binary64 st)
        = Some ''Monthly Usage Projection Basis cannot be empty.''"
    and "projectedUsage (calculateProjection Binary64 st) = []"
    and "projectedCosts (calculateProjection Binary64 st) = []"
    and "totalProjectedCost (calculateProjection Binary64 st) = Fin 0"
    using t e by blast+
  moreover have "usageBasis_of Binary64 (''200'' @ '','' @ ''abc'' @ '','' @ ''180'')
       = usageBasis_of Binary64 (''200'' @ '','' @ ''180'')"
    using t w by blast
  ultimately show ?thesis
    using e w unfolding st_def by (intro conjI)
qed

section \<open>Defaults on loading a session\<close>

text \<open>
  A session without a band list makes the function throw when it reads the list.
\<close>

lemma handleLoadSession_no_bands:
  "stored_tariffQuarters sess = None \<Longrightarrow> snd (handleLoadSession today sess) = Inl TypeError"
  by (simp add: handleLoadSession_def)

text \<open>
  C9. Loading a stored session defaults missing fields instead of failing. A session
  without a peak percentage gets the peak percentage 70. When the session has its band
  list, the load does not fail and returns as many bands; a band without a standing charge
  gets the standing charge 0, a band with one keeps it, and every other field of a band is
  taken over unchanged.
\<close>

theorem handleLoadSession_defaults:
  "(stored_peakPercentage sess = JUndefined \<longrightarrow>
      setPeakPercentage (fst (handleLoadSession today sess)) = JNum (Fin 70))
   \<and> (stored_tariffQuarters sess = Some qs \<longrightarrow>
      (\<exists>r. snd (handleLoadSession today sess) = Inr r
         \<and> length (setTariffQuarters r) = length qs
         \<and> (\<forall>j < length qs.
              map_of (setTariffQuarters r ! j) ''standingCharge'' =
                Some (case map_of (qs ! j) ''standingCharge'' of
                        None \<Rightarrow> JNum (Fin 0)
                      | Some v \<Rightarrow> if v = JUndefined then JNum (Fin 0) else v)
              \<and> (\<forall>k. k \<noteq> ''standingCharge'' \<longrightarrow>
                    map_of (setTariffQuarters r ! j) k = map_of (qs ! j) k))))"
proof (intro conjI impI)
  assume "stored_peakPercentage sess = JUndefined"
  then show "setPeakPercentage (fst (handleLoadSession today sess)) = JNum (Fin 70)"
    by (simp add: handleLoadSession_def js_or_def)
next
  assume qs: "stored_tariffQuarters sess = Some qs"
  have sc: "map_of (load_band q) ''standingCharge'' =
      Some (case map_of q ''standingCharge'' of
              None \<Rightarrow> JNum (Fin 0)
            | Some v \<Rightarrow> if v = JUndefined then JNum (Fin 0) else v)" for q
    by (simp add: load_band_def get_prop_def update_conv' split: option.splits)
  have other: "map_of (load_band q) k = map_of q k" if "k \<noteq> ''standingCharge''" for q k
    using that by (simp add: load_band_def update_conv')
  show "\<exists>r. snd (handleLoadSession today sess) = Inr r
         \<and> length (setTariffQuarters r) = length qs
         \<and> (\<forall>j < length qs.
              map_of (setTariffQuarters r ! j) ''standingCharge'' =
                Some (case map_of (qs ! j) ''standingCharge'' of
                        None \<Rightarrow> JNum (Fin 0)
                      | Some v \<Rightarrow> if v = JUndefined then JNum (Fin 0) else v)
              \<and> (\<forall>k. k \<noteq> ''standingCharge'' \<longrightarrow>
                    map_of (setTariffQuarters r ! j) k = map_of (qs ! j) k))"
    using qs by (simp add: handleLoadSession_def sc other)
qed

theorem handleLoadSession_defaults_witness:
  "stored_peakPercentage old_session = JUndefined
   \<and> setPeakPercentage (fst (handleLoadSession 3 old_session)) = JNum (Fin 70)
   \<and> (\<exists>r. snd (handleLoadSession 3 old_session) = Inr r
        \<and> length (setTariffQuarters r) = 2
        \<and> map_of (setTariffQuarters r ! 0) ''standingCharge'' = Some (JNum (Fin 0))
        \<and> map_of (setTariffQuarters r ! 0) ''peakUnitRate'' = Some (JNum (Fin 27))
        \<and> map_of (setTariffQuarters r ! 1) ''standingCharge'' = Some (JNum (Fin 56)))"
proof -
  let ?qs = "[[(''name'', JStr ''Q1''), (''peakUnitRate'', JNum (Fin 27)),
               (''offPeakUnitRate'', JNum (Fin 15))],
              [(''name'', JStr ''Q2''), (''peakUnitRate'', JNum (Fin 28)),
               (''standingCharge'', JNum (Fin 56)), (''offPeakUnitRate'', JNum (Fin 16))]]"
  have p: "stored_peakPercentage old_session = JUndefined"
    and q: "stored_tariffQuarters old_session = Some ?qs"
    by (simp_all add: old_session_def)
  note t = handleLoadSession_defaults [of old_session 3 ?qs]
  have seventy: "setPeakPercentage (fst (handleLoadSession 3 old_session)) = JNum (Fin 70)"
    using t p by blast
  obtain r where r: "snd (handleLoadSession 3 old_session) = Inr r"
    and len: "length (setTariffQuarters r) = length ?qs"
    and bands: "\<forall>j < length ?qs.
        map_of (setTariffQuarters r ! j) ''standingCharge'' =
          Some (case map_of (?qs ! j) ''standingCharge'' of
                  None \<Rightarrow> JNum (Fin 0)
                | Some v \<Rightarrow> if v = JUndefined then JNum (Fin 0) else v)
        \<and> (\<forall>k. k \<noteq> ''standingCharge'' \<longrightarrow>
              map_of (setTariffQuarters r ! j) k = map_of (?qs ! j) k)"
    using t q by blast
  have b0: "map_of (setTariffQuarters r ! 0) ''standingCharge'' = Some (JNum (Fin 0))"
    "map_of (setTariffQuarters r ! 0) ''peakUnitRate'' = Some (JNum (Fin 27))"
    using bands [rule_format, of 0] by simp_all
  have b1: "map_of (setTariffQuarters r ! 1) ''standingCharge'' = Some (JNum (Fin 56))"
    using bands [rule_format, of 1] by simp
  show ?thesis
    using p seventy r len b0 b1 by (intro conjI exI [of _ r]) simp_all
qed

end
